theory Spec2Isabelle
  imports Main
begin

section \<open>JavaScript values and strings\<close>

text \<open>
  The runner is JavaScript: every value it handles is untyped. A value that came out of
  \<^verbatim>\<open>JSON.parse\<close> is a \<open>json\<close>; \<open>None :: json option\<close> stands for \<^verbatim>\<open>undefined\<close>.
  JSON numbers are restricted to integers (a step index, a flag), and a \<open>char\<close> is one
  UTF-16 code unit below 256, so \<open>length\<close> is JavaScript's \<^verbatim>\<open>.length\<close> on such strings.
\<close>

datatype json =
    JNull
  | JBool bool
  | JNum int
  | JStr string
  | JArr "json list"
  | JObj "(string \<times> json) list"

text \<open>Truthiness, as \<^verbatim>\<open>||\<close>, \<^verbatim>\<open>if\<close> and \<^verbatim>\<open>?:\<close> read a value.\<close>

fun truthy :: "json option \<Rightarrow> bool" where
  "truthy None = False"
| "truthy (Some JNull) = False"
| "truthy (Some (JBool b)) = b"
| "truthy (Some (JNum n)) = (n \<noteq> 0)"
| "truthy (Some (JStr s)) = (s \<noteq> [])"
| "truthy (Some (JArr xs)) = True"
| "truthy (Some (JObj kvs)) = True"

text \<open>The exceptions the runner raises or lets through.\<close>

datatype exn =
    Error string "int option"  \<comment> \<open>\<^verbatim>\<open>new Error(message)\<close>, with the \<^verbatim>\<open>duration\<close> attached to it, if any\<close>
  | TypeError                  \<comment> \<open>raised by the runtime: a property of \<^verbatim>\<open>undefined\<close> or \<^verbatim>\<open>null\<close>, a call of a non-function\<close>
  | InvalidPlanJSON            \<comment> \<open>\<^verbatim>\<open>new Error(`Invalid plan JSON: ${err.message}`)\<close>\<close>

text \<open>
  \<^verbatim>\<open>err.message\<close>: the text given to \<^verbatim>\<open>new Error\<close>, or the engine's own wording for an
  exception of the runtime (which is also how the message of \<open>InvalidPlanJSON\<close> ends).
\<close>

datatype message = Text string | EngineText

fun message_of :: "exn \<Rightarrow> message" where
  "message_of (Error m d) = Text m"
| "message_of TypeError = EngineText"
| "message_of InvalidPlanJSON = EngineText"

fun duration_of :: "exn \<Rightarrow> int option" where
  "duration_of (Error m d) = d"
| "duration_of TypeError = None"
| "duration_of InvalidPlanJSON = None"

text \<open>
  A property read \<^verbatim>\<open>v.k\<close> for the keys the runner reads from a plan step (\<^verbatim>\<open>stepIndex\<close>,
  \<^verbatim>\<open>tool\<close>, \<^verbatim>\<open>params\<close>, \<^verbatim>\<open>isAssertion\<close>): it throws on \<^verbatim>\<open>null\<close> and \<^verbatim>\<open>undefined\<close>, is
  the member of an object (the last one, where \<^verbatim>\<open>JSON.parse\<close> met the key twice) and
  \<^verbatim>\<open>undefined\<close> on every other value.
\<close>

fun getProp :: "json option \<Rightarrow> string \<Rightarrow> exn + json option" where
  "getProp None k = Inl TypeError"
| "getProp (Some JNull) k = Inl TypeError"
| "getProp (Some (JObj kvs)) k = Inr (map_of (rev kvs) k)"
| "getProp (Some v) k = Inr None"

subsection \<open>Strings\<close>

definition newline :: char where
  "newline = CHR 0x0A"

text \<open>The characters of \<^verbatim>\<open>\s\<close> and of \<^verbatim>\<open>trim\<close> (white space and line terminators) below 256.\<close>

definition isSpace :: "char \<Rightarrow> bool" where
  "isSpace c = (c \<in> set [CHR 0x09, CHR 0x0A, CHR 0x0B, CHR 0x0C, CHR 0x0D, CHR 0x20, CHR 0xA0])"

definition trim :: "string \<Rightarrow> string" where
  "trim s = rev (dropWhile isSpace (rev (dropWhile isSpace s)))"

text \<open>\<^verbatim>\<open>toLowerCase\<close> on code units below 256: the letters A-Z and the Latin-1 capitals.\<close>

definition lowerChar :: "char \<Rightarrow> char" where
  "lowerChar c =
     (let n = (of_char c :: nat)
      in if (65 \<le> n \<and> n \<le> 90) \<or> (192 \<le> n \<and> n \<le> 222 \<and> n \<noteq> 215)
         then char_of (n + 32) else c)"

definition toLowerCase :: "string \<Rightarrow> string" where
  "toLowerCase s = map lowerChar s"

text \<open>
  How a regular expression with the flag \<^verbatim>\<open>i\<close> compares a character with an ASCII
  character of the pattern: only the two cases of an ASCII letter are identified.
\<close>

definition foldCase :: "char \<Rightarrow> char" where
  "foldCase c =
     (let n = (of_char c :: nat)
      in if 65 \<le> n \<and> n \<le> 90 then char_of (n + 32) else c)"

definition startsWithCI :: "string \<Rightarrow> string \<Rightarrow> bool" where
  "startsWithCI p s = (length p \<le> length s \<and> map foldCase (take (length p) s) = map foldCase p)"

section \<open>The provider's response\<close>

text \<open>
  \<^verbatim>\<open>invoke(name, params) \<rightarrow> {content: list<ContentBlock>, isError: bool}\<close> with
  \<^verbatim>\<open>ContentBlock = {type, text?}\<close>. \<open>content = None\<close> is a response whose \<^verbatim>\<open>content\<close> is no array.
\<close>

record ContentBlock =
  type :: string
  text' :: "string option"

record CallToolResult =
  content :: "ContentBlock list option"
  isError :: bool

text \<open>
  \<^verbatim>\<open>await this.mcpClient.callTool(...)\<close> resolves with a result or rejects with an error
  (its message); the provider is a state machine of its own, and the integer is what
  \<^verbatim>\<open>Date.now() - start\<close> reads once the call has resolved.
\<close>

datatype outcome = Resolved CallToolResult | Rejected string

type_synonym 'p provider = "'p \<Rightarrow> string \<Rightarrow> json \<Rightarrow> outcome \<times> int \<times> 'p"

subsection \<open>The marker \<^verbatim>\<open>### Result\<close>\<close>

text \<open>
  \<^verbatim>\<open>textBlock.match(/### Result\s+([^\n]+)/i)\<close>, group 1 of the leftmost match.
  \<open>captureLine\<close> is \<^verbatim>\<open>([^\n]+)\<close>, greedy. \<open>spacesThen k s\<close> is \<^verbatim>\<open>\s+\<close> on \<open>s\<close>, whose first
  \<open>k\<close> characters are white space: it takes them all first and gives them back one at a
  time, as the backtracking matcher does, until the rest of the pattern matches.
\<close>

definition captureLine :: "string \<Rightarrow> string option" where
  "captureLine s = (let c = takeWhile (\<lambda>x. x \<noteq> newline) s in if c = [] then None else Some c)"

fun spacesThen :: "nat \<Rightarrow> string \<Rightarrow> string option" where
  "spacesThen 0 s = None"
| "spacesThen (Suc k) s =
     (case captureLine (drop (Suc k) s) of
        Some c \<Rightarrow> Some c
      | None \<Rightarrow> spacesThen k s)"

definition matchResultHere :: "string \<Rightarrow> string option" where
  "matchResultHere s =
     (if startsWithCI ''### Result'' s
      then (let r = drop 10 s in spacesThen (length (takeWhile isSpace r)) r)
      else None)"

fun matchResult :: "string \<Rightarrow> string option" where
  "matchResult [] = None"
| "matchResult (c # cs) =
     (case matchResultHere (c # cs) of
        Some v \<Rightarrow> Some v
      | None \<Rightarrow> matchResult cs)"

text \<open>
  Lines 232-249 of \<^verbatim>\<open>executeMCP\<close>: the first block of type \<^verbatim>\<open>text\<close>, its text when it is
  not empty, the marker in it, and the value after the marker.
\<close>

definition returnedFalse :: "CallToolResult \<Rightarrow> bool" where
  "returnedFalse result =
     (case content result of
        None \<Rightarrow> False
      | Some blocks \<Rightarrow>
          (case find (\<lambda>c. type c = ''text'') blocks of
             None \<Rightarrow> False
           | Some c \<Rightarrow>
               (case text' c of
                  None \<Rightarrow> False
                | Some textBlock \<Rightarrow>
                    if textBlock = [] then False
                    else (case matchResult textBlock of
                            None \<Rightarrow> False
                          | Some m \<Rightarrow> toLowerCase (trim m) = ''false''))))"

subsection \<open>The serialised payload\<close>

text \<open>
  \<^verbatim>\<open>JSON.stringify(result.content)\<close> inside a template literal, for blocks that carry the two
  fields of \<open>ContentBlock\<close>: strings are quoted with the escapes of \<^verbatim>\<open>JSON.stringify\<close>, and
  \<^verbatim>\<open>undefined\<close> prints as the word.
\<close>

definition hexDigit :: "nat \<Rightarrow> char" where
  "hexDigit n = ''0123456789abcdef'' ! (n mod 16)"

definition escapeChar :: "char \<Rightarrow> string" where
  "escapeChar c =
     (if c = CHR 0x22 then [CHR 0x5C, CHR 0x22]
      else if c = CHR 0x5C then [CHR 0x5C, CHR 0x5C]
      else if c = CHR 0x08 then [CHR 0x5C, CHR ''b'']
      else if c = CHR 0x0C then [CHR 0x5C, CHR ''f'']
      else if c = CHR 0x0A then [CHR 0x5C, CHR ''n'']
      else if c = CHR 0x0D then [CHR 0x5C, CHR ''r'']
      else if c = CHR 0x09 then [CHR 0x5C, CHR ''t'']
      else if (of_char c :: nat) < 32
        then [CHR 0x5C, CHR ''u'', CHR ''0'', CHR ''0'',
              hexDigit ((of_char c :: nat) div 16), hexDigit (of_char c :: nat)]
      else [c])"

definition quoteJSON :: "string \<Rightarrow> string" where
  "quoteJSON s = [CHR 0x22] @ concat (map escapeChar s) @ [CHR 0x22]"

definition stringifyBlock :: "ContentBlock \<Rightarrow> string" where
  "stringifyBlock c =
     ''{'' @ quoteJSON ''type'' @ '':'' @ quoteJSON (type c) @
     (case text' c of
        None \<Rightarrow> []
      | Some t \<Rightarrow> '','' @ quoteJSON ''text'' @ '':'' @ quoteJSON t) @ ''}''"

fun joinWith :: "string \<Rightarrow> string list \<Rightarrow> string" where
  "joinWith sep [] = []"
| "joinWith sep [x] = x"
| "joinWith sep (x # y # ys) = x @ sep @ joinWith sep (y # ys)"

definition JSON_stringify :: "ContentBlock list option \<Rightarrow> string" where
  "JSON_stringify c =
     (case c of
        None \<Rightarrow> ''undefined''
      | Some blocks \<Rightarrow> ''['' @ joinWith '','' (map stringifyBlock blocks) @ '']'')"

section \<open>The screenshot of a step\<close>

text \<open>
  \<^verbatim>\<open>fullText.match(/([^\s"'()]+?\.(png|jpg|jpeg))/gi)\<close>: every match, from left to right,
  the search going on where the match before ended (a match \<open>m\<close> is never empty, so that
  is \<open>length m - 1\<close> characters after the one it began with). \<open>tokenThenExt\<close> is the lazy
  \<^verbatim>\<open>+?\<close>: after the characters taken so far it tries the extension first and takes one more
  character only when that fails.
\<close>

definition isTokenChar :: "char \<Rightarrow> bool" where
  "isTokenChar c = (\<not> isSpace c \<and> c \<notin> set [CHR 0x22, CHR 0x27, CHR 0x28, CHR 0x29])"

definition matchExt :: "string \<Rightarrow> string option" where
  "matchExt s =
     (if startsWithCI ''.png'' s then Some (take 4 s)
      else if startsWithCI ''.jpg'' s then Some (take 4 s)
      else if startsWithCI ''.jpeg'' s then Some (take 5 s)
      else None)"

fun tokenThenExt :: "string \<Rightarrow> string \<Rightarrow> string option" where
  "tokenThenExt taken s =
     (case matchExt s of
        Some e \<Rightarrow> Some (taken @ e)
      | None \<Rightarrow>
          (case s of
             [] \<Rightarrow> None
           | c # cs \<Rightarrow> if isTokenChar c then tokenThenExt (taken @ [c]) cs else None))"

definition matchImageHere :: "string \<Rightarrow> string option" where
  "matchImageHere s =
     (case s of
        [] \<Rightarrow> None
      | c # cs \<Rightarrow> if isTokenChar c then tokenThenExt [c] cs else None)"

fun matchImages :: "string \<Rightarrow> string list" where
  "matchImages [] = []"
| "matchImages (c # cs) =
     (case matchImageHere (c # cs) of
        Some m \<Rightarrow> m # matchImages (drop (length m - 1) cs)
      | None \<Rightarrow> matchImages cs)"

text \<open>
  \<^verbatim>\<open>path.basename\<close> (POSIX): trailing slashes do not count, and the name is what follows
  the last slash. \<^verbatim>\<open>path.join(dir, name)\<close> for a name without a slash that is neither
  \<^verbatim>\<open>.\<close> nor \<^verbatim>\<open>..\<close>, which a match of the expression above always gives.
\<close>

definition basename :: "string \<Rightarrow> string" where
  "basename p =
     rev (takeWhile (\<lambda>c. c \<noteq> CHR ''/'') (dropWhile (\<lambda>c. c = CHR ''/'') (rev p)))"

definition screenshotsDir :: string where
  "screenshotsDir = ''mcp-workspace/test-screenshots''"

definition path_join :: "string \<Rightarrow> string \<Rightarrow> string" where
  "path_join dir name = dir @ ''/'' @ name"

definition fullText :: "ContentBlock list \<Rightarrow> string" where
  "fullText blocks =
     joinWith [newline]
       (map (\<lambda>c. the (text' c)) (filter (\<lambda>c. type c = ''text'' \<and> text' c \<noteq> None) blocks))"

definition extractScreenshotPath :: "CallToolResult \<Rightarrow> string option" where
  "extractScreenshotPath result =
     (case content result of
        None \<Rightarrow> None
      | Some blocks \<Rightarrow>
          if fullText blocks = [] then None
          else (case matchImages (fullText blocks) of
                  [] \<Rightarrow> None
                | m # ms \<Rightarrow> Some (path_join screenshotsDir (basename (last (m # ms))))))"

text \<open>
  What the expression finds, said without the matcher. An image run stands at the start
  of a text when the text begins with one or more characters that are neither white space
  nor quotes nor parentheses, followed by one of the three extensions in any case; such a
  run may be a piece of a longer word. The shortest run at a place is the one with the
  fewest characters before the extension. \<open>scanned ms s\<close> says that \<open>ms\<close> are the runs a scan
  of \<open>s\<close> from left to right meets: no run begins before the first one, which is the
  shortest where it begins, the scan goes on behind it, and no run is left after the last.
\<close>

definition isImageExt :: "string \<Rightarrow> bool" where
  "isImageExt e =
     (map foldCase e = map foldCase ''.png'' \<or> map foldCase e = map foldCase ''.jpg'' \<or>
      map foldCase e = map foldCase ''.jpeg'')"

definition extAt :: "string \<Rightarrow> bool" where
  "extAt s = (\<exists>e rest. s = e @ rest \<and> isImageExt e)"

definition imageRunAt :: "string \<Rightarrow> bool" where
  "imageRunAt s = (\<exists>t e rest. s = t @ e @ rest \<and> t \<noteq> [] \<and> list_all isTokenChar t \<and> isImageExt e)"

definition hasImageRun :: "string \<Rightarrow> bool" where
  "hasImageRun s = (\<exists>pre u. s = pre @ u \<and> imageRunAt u)"

definition shortestRunAt :: "string \<Rightarrow> string \<Rightarrow> bool" where
  "shortestRunAt m s =
     (\<exists>t e rest. m = t @ e \<and> s = m @ rest \<and> t \<noteq> [] \<and> list_all isTokenChar t \<and> isImageExt e \<and>
        \<not> (\<exists>k. 0 < k \<and> k < length t \<and> extAt (drop k s)))"

primrec scanned :: "string list \<Rightarrow> string \<Rightarrow> bool" where
  "scanned [] s = (\<not> hasImageRun s)"
| "scanned (m # ms) s =
     (\<exists>pre rest. s = pre @ m @ rest \<and> \<not> (\<exists>k. k < length pre \<and> imageRunAt (drop k s)) \<and>
        shortestRunAt m (m @ rest) \<and> scanned ms rest)"

text \<open>
  The words of the specification: the tokens of the text are its longest stretches of
  characters that are neither white space nor quotes nor parentheses, a token is an image
  file name when it ends in one of the extensions (with something before it), and the
  screenshot is the path built from the last such token, or nothing.
\<close>

function tokensOf :: "string \<Rightarrow> string list" where
  "tokensOf [] = []"
| "tokensOf (c # cs) =
     (if isTokenChar c then takeWhile isTokenChar (c # cs) # tokensOf (dropWhile isTokenChar cs)
      else tokensOf cs)"
  by pat_completeness auto
termination
  by (relation "measure length") (auto simp: length_dropWhile_le less_Suc_eq_le)

definition endsWithCI :: "string \<Rightarrow> string \<Rightarrow> bool" where
  "endsWithCI p u = (length p < length u \<and> map foldCase (drop (length u - length p) u) = map foldCase p)"

definition endsInImageExt :: "string \<Rightarrow> bool" where
  "endsInImageExt u = (endsWithCI ''.png'' u \<or> endsWithCI ''.jpg'' u \<or> endsWithCI ''.jpeg'' u)"

definition claimedScreenshotPath :: "CallToolResult \<Rightarrow> string option" where
  "claimedScreenshotPath result =
     (case content result of
        None \<Rightarrow> None
      | Some blocks \<Rightarrow>
          (case filter endsInImageExt (tokensOf (fullText blocks)) of
             [] \<Rightarrow> None
           | u # us \<Rightarrow> Some (path_join screenshotsDir (basename (last (u # us))))))"

section \<open>The runner\<close>

subsection \<open>State\<close>

text \<open>
  One entry of \<^verbatim>\<open>testResults.actions\<close>, without its \<^verbatim>\<open>timestamp\<close>. \<open>JNull\<close>, and \<open>None\<close> in
  \<open>error\<close> and \<open>screenshot\<close>, is \<^verbatim>\<open>null\<close>; \<open>None\<close> in \<open>params\<close> is \<^verbatim>\<open>undefined\<close>.
\<close>

record ActionRecord =
  tool :: string
  params :: "json option"
  status :: string
  assertion :: json
  error :: "message option"
  duration :: int
  screenshot :: "string option"

record TestResults =
  passed :: nat
  failed :: nat
  actions :: "ActionRecord list"

record TestReport =
  testName :: string
  testText :: string
  report_actions :: "ActionRecord list"
  passedActions :: nat
  failedActions :: nat
  totalActions :: nat
  testResult :: string

text \<open>
  The fields of \<^verbatim>\<open>StatelessMCPRunner\<close>. \<open>mcpClient\<close> is the state of the provider behind the
  connection, \<open>mcpTools\<close> the catalog (tool name to input schema), and \<open>invoked\<close> the calls
  sent to the provider so far, which the source does not keep.
\<close>

record 'p Runner =
  mcpClient :: 'p
  mcpTools :: "string \<rightharpoonup> json"
  testResults :: TestResults
  testReport :: "TestReport option"
  invoked :: "(string \<times> json) list"

definition StatelessMCPRunner :: "'p \<Rightarrow> 'p Runner" where
  "StatelessMCPRunner p =
     \<lparr>mcpClient = p, mcpTools = Map.empty,
      testResults = \<lparr>passed = 0, failed = 0, actions = []\<rparr>,
      testReport = None, invoked = []\<rparr>"

text \<open>\<^verbatim>\<open>initializeMCP\<close>, from the tools that \<^verbatim>\<open>listTools\<close> returned: every name is set in turn.\<close>

definition initializeMCP :: "(string \<times> json) list \<Rightarrow> 'p Runner \<Rightarrow> 'p Runner" where
  "initializeMCP toolsList r = r\<lparr>mcpTools := fold (\<lambda>(n, schema) m. m(n \<mapsto> schema)) toolsList (mcpTools r)\<rparr>"

text \<open>
  What the runner takes from the JavaScript runtime: \<^verbatim>\<open>JSON.parse\<close> (\<open>None\<close> when it throws)
  and the number a value is coerced to where the runner subtracts or compares (\<open>None\<close> for
  \<^verbatim>\<open>NaN\<close>). The properties below hold for every such pair; a value that coerces to a
  fraction or to an infinity is outside the model, as the fractions are.
\<close>

record runtime =
  JSON_parse :: "string \<Rightarrow> json option"
  ToNumber :: "json \<Rightarrow> int option"

subsection \<open>\<^verbatim>\<open>recordAction\<close>\<close>

definition recordAction ::
  "string \<Rightarrow> json option \<Rightarrow> string \<Rightarrow> json option \<Rightarrow> message option \<Rightarrow> int \<Rightarrow> string option
     \<Rightarrow> TestResults \<Rightarrow> TestResults" where
  "recordAction tool_arg params_arg status_arg assertion_arg error_arg duration_arg screenshot_arg res =
     (let a = \<lparr>tool = tool_arg, params = params_arg, status = status_arg,
                assertion = (if truthy assertion_arg then the assertion_arg else JNull),
                error = (case error_arg of
                           None \<Rightarrow> None
                         | Some (Text m) \<Rightarrow> if m = [] then None else Some (Text m)
                         | Some EngineText \<Rightarrow> Some EngineText),
                duration = duration_arg,
                screenshot = (case screenshot_arg of
                                None \<Rightarrow> None
                              | Some p \<Rightarrow> if p = [] then None else Some p)\<rparr>;
          res1 = res\<lparr>actions := actions res @ [a]\<rparr>;
          res2 = (if status_arg = ''passed'' then res1\<lparr>passed := passed res1 + 1\<rparr> else res1)
      in if status_arg = ''failed'' then res2\<lparr>failed := failed res2 + 1\<rparr> else res2)"

subsection \<open>\<^verbatim>\<open>executeMCP\<close>\<close>

text \<open>
  \<^verbatim>\<open>log.tool\<close> comes first and reads \<^verbatim>\<open>JSON.stringify(args).substring\<close>, which throws when the
  parameters are \<^verbatim>\<open>undefined\<close>: the provider is not called then. Otherwise the call is made,
  and its outcome classified.
\<close>

definition executeMCP ::
  "'p provider \<Rightarrow> 'p Runner \<Rightarrow> string \<Rightarrow> json option \<Rightarrow> (exn + CallToolResult \<times> int) \<times> 'p Runner" where
  "executeMCP callTool r toolName params_arg =
     (case params_arg of
        None \<Rightarrow> (Inl TypeError, r)
      | Some args \<Rightarrow>
          (case callTool (mcpClient r) toolName args of
             (out, elapsed, p') \<Rightarrow>
               (let r' = r\<lparr>mcpClient := p', invoked := invoked r @ [(toolName, args)]\<rparr>
                in case out of
                     Rejected m \<Rightarrow> (Inl (Error m None), r')
                   | Resolved result \<Rightarrow>
                       if isError result
                       then (Inl (Error (''MCP Tool Error: '' @ JSON_stringify (content result))
                                   (Some elapsed)), r')
                       else if returnedFalse result
                       then (Inl (Error ''MCP Tool returned false'' (Some elapsed)), r')
                       else (Inr (result, elapsed), r'))))"

subsection \<open>\<^verbatim>\<open>generateExecutionPlan\<close>\<close>

text \<open>
  \<^verbatim>\<open>planJson.replace(/```json\n?/g, '').replace(/```\n?/g, '').trim()\<close>: one pass from left
  to right for each expression.
\<close>

definition dropNewline :: "string \<Rightarrow> string" where
  "dropNewline s = (case s of [] \<Rightarrow> [] | c # cs \<Rightarrow> if c = newline then cs else c # cs)"

function removeFence :: "string \<Rightarrow> string \<Rightarrow> string" where
  "removeFence fence [] = []"
| "removeFence fence (c # cs) =
     (if take (length fence) (c # cs) = fence
      then removeFence fence (dropNewline (drop (length fence - 1) cs))
      else c # removeFence fence cs)"
  by pat_completeness auto
termination
proof (relation "measure (\<lambda>(fence, s). length s)")
  fix fence :: string and c :: char and cs :: string
  have "length (dropNewline s) \<le> length s" for s
    by (cases s) (simp_all add: dropNewline_def)
  then have "length (dropNewline (drop (length fence - 1) cs)) \<le> length (drop (length fence - 1) cs)" .
  also have "\<dots> \<le> length cs"
    by simp
  finally show "((fence, dropNewline (drop (length fence - 1) cs)), (fence, c # cs))
               \<in> measure (\<lambda>(fence, s). length s)"
    by simp
qed simp_all

definition stripFences :: "string \<Rightarrow> string" where
  "stripFences s = trim (removeFence ''```'' (removeFence ''```json'' s))"

text \<open>
  The plan is whatever \<^verbatim>\<open>JSON.parse\<close> returns. Inside the \<^verbatim>\<open>try\<close>, \<^verbatim>\<open>plan.length\<close> is read
  for the log, which throws on \<^verbatim>\<open>null\<close>; both failures are rethrown as the same error.
\<close>

definition generateExecutionPlan :: "runtime \<Rightarrow> string \<Rightarrow> exn + json" where
  "generateExecutionPlan rt response =
     (case JSON_parse rt (stripFences response) of
        None \<Rightarrow> Inl InvalidPlanJSON
      | Some plan \<Rightarrow> (case plan of JNull \<Rightarrow> Inl InvalidPlanJSON | _ \<Rightarrow> Inr plan))"

subsection \<open>\<^verbatim>\<open>runTest\<close>\<close>

text \<open>\<^verbatim>\<open>testText.split('\n').filter(l => l.trim().startsWith('-'))\<close>\<close>

fun splitLines :: "string \<Rightarrow> string list" where
  "splitLines [] = [[]]"
| "splitLines (c # cs) =
     (if c = newline then [] # splitLines cs
      else (case splitLines cs of
              [] \<Rightarrow> [[c]]
            | l # ls \<Rightarrow> (c # l) # ls))"

definition testStepsOf :: "string \<Rightarrow> string list" where
  "testStepsOf txt = filter (\<lambda>l. take 1 (trim l) = ''-'') (splitLines txt)"

text \<open>
  \<^verbatim>\<open>executionPlan.length\<close> and \<^verbatim>\<open>executionPlan[i]\<close> on a value that need not be an array: a
  string has its characters, an object its own \<^verbatim>\<open>length\<close> and the members named by the
  indices, a number or a boolean has neither.
\<close>

function decimal :: "nat \<Rightarrow> string" where
  "decimal n = (if n < 10 then [''0123456789'' ! n] else decimal (n div 10) @ [''0123456789'' ! (n mod 10)])"
  by pat_completeness auto
termination
  by (relation "measure id") auto

fun planLength :: "runtime \<Rightarrow> json \<Rightarrow> nat" where
  "planLength rt (JArr xs) = length xs"
| "planLength rt (JStr s) = length s"
| "planLength rt (JObj kvs) =
     (case map_of (rev kvs) ''length'' of
        None \<Rightarrow> 0
      | Some v \<Rightarrow> (case ToNumber rt v of None \<Rightarrow> 0 | Some n \<Rightarrow> nat n))"
| "planLength rt v = 0"

fun planItem :: "json \<Rightarrow> nat \<Rightarrow> json option" where
  "planItem (JArr xs) i = (if i < length xs then Some (xs ! i) else None)"
| "planItem (JStr s) i = (if i < length s then Some (JStr [s ! i]) else None)"
| "planItem (JObj kvs) i = map_of (rev kvs) (decimal i)"
| "planItem v i = None"

text \<open>
  \<^verbatim>\<open>testSteps[step.stepIndex - 1] || testSteps[i]\<close>, the text that the log line of the step
  trims.
\<close>

definition nthOpt :: "'a list \<Rightarrow> nat \<Rightarrow> 'a option" where
  "nthOpt xs i = (if i < length xs then Some (xs ! i) else None)"

definition originalStep :: "runtime \<Rightarrow> string list \<Rightarrow> json option \<Rightarrow> nat \<Rightarrow> string option" where
  "originalStep rt testSteps stepIndex i =
     (let k = (case stepIndex of None \<Rightarrow> None | Some v \<Rightarrow> ToNumber rt v);
          byIndex = (case k of
                       None \<Rightarrow> None
                     | Some n \<Rightarrow> if 1 \<le> n then nthOpt testSteps (nat (n - 1)) else None)
      in case byIndex of
           None \<Rightarrow> nthOpt testSteps i
         | Some l \<Rightarrow> if l = [] then nthOpt testSteps i else Some l)"

definition stripMcp :: "string \<Rightarrow> string" where
  "stripMcp t = (if take 4 t = ''mcp_'' then drop 4 t else t)"

text \<open>\<^verbatim>\<open>step.isAssertion || false\<close>\<close>

definition orFalse :: "json option \<Rightarrow> json option" where
  "orFalse v = (if truthy v then v else Some (JBool False))"

text \<open>
  One turn of the loop. An exception outside the \<^verbatim>\<open>try\<close> (the step is \<^verbatim>\<open>null\<close>, there is no
  text to trim, \<^verbatim>\<open>step.tool\<close> has no \<^verbatim>\<open>replace\<close>) leaves \<^verbatim>\<open>runTest\<close>; one inside is recorded.
\<close>

definition runStep ::
  "runtime \<Rightarrow> 'p provider \<Rightarrow> string list \<Rightarrow> json \<Rightarrow> nat \<Rightarrow> 'p Runner \<Rightarrow> exn option \<times> 'p Runner" where
  "runStep rt callTool testSteps executionPlan i r =
     (let step = planItem executionPlan i
      in case getProp step ''stepIndex'' of
           Inl e \<Rightarrow> (Some e, r)
         | Inr stepIndex \<Rightarrow>
             (case originalStep rt testSteps stepIndex i of
                None \<Rightarrow> (Some TypeError, r)
              | Some line \<Rightarrow>
                  (case getProp step ''tool'' of
                     Inr (Some (JStr t)) \<Rightarrow>
                       (let toolName = stripMcp t;
                            step_params = (case getProp step ''params'' of Inl e \<Rightarrow> None | Inr v \<Rightarrow> v);
                            isAssertion = (case getProp step ''isAssertion'' of Inl e \<Rightarrow> None | Inr v \<Rightarrow> v)
                        in case executeMCP callTool r toolName step_params of
                             (Inr (result, d), r') \<Rightarrow>
                               (None, r'\<lparr>testResults :=
                                  recordAction (''mcp_'' @ t) step_params ''passed'' (orFalse isAssertion)
                                    None d (extractScreenshotPath result) (testResults r')\<rparr>)
                           | (Inl err, r') \<Rightarrow>
                               (None, r'\<lparr>testResults :=
                                  recordAction (''mcp_'' @ t) step_params ''failed'' (orFalse isAssertion)
                                    (Some (message_of err))
                                    (case duration_of err of None \<Rightarrow> 0 | Some d \<Rightarrow> d)
                                    None (testResults r')\<rparr>))
                   | _ \<Rightarrow> (Some TypeError, r))))"

fun stepLoop ::
  "runtime \<Rightarrow> 'p provider \<Rightarrow> string list \<Rightarrow> json \<Rightarrow> nat list \<Rightarrow> 'p Runner \<Rightarrow> exn option \<times> 'p Runner" where
  "stepLoop rt callTool testSteps executionPlan [] r = (None, r)"
| "stepLoop rt callTool testSteps executionPlan (i # rest) r =
     (case runStep rt callTool testSteps executionPlan i r of
        (Some e, r') \<Rightarrow> (Some e, r')
      | (None, r') \<Rightarrow> stepLoop rt callTool testSteps executionPlan rest r')"

text \<open>
  \<^verbatim>\<open>generateReport\<close> of the report generator, as far as the report's data goes: it computes
  \<^verbatim>\<open>testResult\<close> once more; the files it writes are not part of the model.
\<close>

definition generateReport :: "TestReport \<Rightarrow> TestReport" where
  "generateReport rep = rep\<lparr>testResult := (if failedActions rep = 0 then ''pass'' else ''fail'')\<rparr>"

definition finalize :: "TestResults \<Rightarrow> TestReport \<Rightarrow> TestReport" where
  "finalize res rep =
     rep\<lparr>report_actions := actions res,
         passedActions := passed res,
         failedActions := failed res,
         totalActions := length (actions res),
         testResult := (if failed res = 0 then ''pass'' else ''fail'')\<rparr>"

text \<open>
  \<^verbatim>\<open>runTest\<close>, given the text the planner answered. The result is what the promise settles
  with (\<open>Inl\<close> when it rejects) and the runner as the run leaves it.
\<close>

definition runTest ::
  "runtime \<Rightarrow> 'p provider \<Rightarrow> string \<Rightarrow> string \<Rightarrow> string \<Rightarrow> 'p Runner \<Rightarrow> (exn + TestResults) \<times> 'p Runner" where
  "runTest rt callTool response txt name r =
     (let rep0 = \<lparr>testName = name, testText = txt, report_actions = [], passedActions = 0,
                   failedActions = 0, totalActions = 0, testResult = ''running''\<rparr>;
          r0 = r\<lparr>testReport := Some rep0\<rparr>;
          testSteps = testStepsOf txt
      in case generateExecutionPlan rt response of
           Inl e \<Rightarrow> (Inl e, r0)
         | Inr executionPlan \<Rightarrow>
             (case stepLoop rt callTool testSteps executionPlan [0..<planLength rt executionPlan] r0 of
                (Some e, r1) \<Rightarrow> (Inl e, r1)
              | (None, r1) \<Rightarrow>
                  (let r2 = r1\<lparr>testReport := Some (generateReport (finalize (testResults r1) rep0))\<rparr>
                   in if failed (testResults r2) > 0
                      then (Inl (Error ''Test failed'' None), r2)
                      else (Inr (testResults r2), r2))))"

text \<open>
  A step is ready when the lines of the loop before the \<^verbatim>\<open>try\<close> do not throw: the step can
  be read, some text of the test is found for the log line, and \<^verbatim>\<open>step.tool\<close> is a string.
\<close>

definition stepReady :: "runtime \<Rightarrow> string list \<Rightarrow> json \<Rightarrow> nat \<Rightarrow> bool" where
  "stepReady rt testSteps executionPlan i =
     (case getProp (planItem executionPlan i) ''stepIndex'' of
        Inl e \<Rightarrow> False
      | Inr stepIndex \<Rightarrow>
          originalStep rt testSteps stepIndex i \<noteq> None \<and>
          (case getProp (planItem executionPlan i) ''tool'' of
             Inr (Some (JStr t)) \<Rightarrow> True
           | _ \<Rightarrow> False))"

text \<open>
  What every entry of \<^verbatim>\<open>testResults.actions\<close> looks like: a passed one carries no error, a
  failed one no screenshot, and the flag is either \<^verbatim>\<open>null\<close> or truthy.
\<close>

definition recorded :: "ActionRecord \<Rightarrow> bool" where
  "recorded a =
     (((status a = ''passed'' \<and> error a = None) \<or> (status a = ''failed'' \<and> screenshot a = None)) \<and>
      assertion a \<noteq> JBool False \<and> (assertion a = JNull \<or> truthy (Some (assertion a))))"

definition countStatus :: "string \<Rightarrow> ActionRecord list \<Rightarrow> nat" where
  "countStatus s ys = length (filter (\<lambda>a. status a = s) ys)"

text \<open>
  The duration of a record is what the clock read around a call of the provider, or 0.
\<close>

definition measured :: "'p provider \<Rightarrow> ActionRecord \<Rightarrow> bool" where
  "measured callTool a = (duration a = 0 \<or> (\<exists>q n args. duration a = fst (snd (callTool q n args))))"

text \<open>
  The record of a step, field by field. When the provider has answered, the answer decides
  status, error, duration (what the clock read around the call, or 0 when the call was
  rejected) and screenshot; when the step has no parameters the provider is not called and
  the record is that of a failure of the runtime. Tool, parameters and flag come from the
  step: the flag is stored when it is truthy and \<^verbatim>\<open>null\<close> is stored otherwise.
\<close>

definition answered :: "outcome \<times> int \<times> 'p \<Rightarrow> ActionRecord \<Rightarrow> bool" where
  "answered answer a =
     (case answer of
        (Rejected m, elapsed, p') \<Rightarrow>
          status a = ''failed'' \<and> error a = (if m = [] then None else Some (Text m)) \<and>
          duration a = 0 \<and> screenshot a = None
      | (Resolved result, elapsed, p') \<Rightarrow>
          if isError result
          then status a = ''failed'' \<and>
               error a = Some (Text (''MCP Tool Error: '' @ JSON_stringify (content result))) \<and>
               duration a = elapsed \<and> screenshot a = None
          else if returnedFalse result
          then status a = ''failed'' \<and> error a = Some (Text ''MCP Tool returned false'') \<and>
               duration a = elapsed \<and> screenshot a = None
          else status a = ''passed'' \<and> error a = None \<and> duration a = elapsed \<and>
               screenshot a = extractScreenshotPath result)"

definition notCalled :: "ActionRecord \<Rightarrow> bool" where
  "notCalled a =
     (status a = ''failed'' \<and> error a = Some EngineText \<and> duration a = 0 \<and> screenshot a = None)"

definition stepRecord :: "'p provider \<Rightarrow> 'p \<Rightarrow> json option \<Rightarrow> ActionRecord \<Rightarrow> bool" where
  "stepRecord callTool q step a =
     (\<exists>t ps flag.
        getProp step ''tool'' = Inr (Some (JStr t)) \<and> getProp step ''params'' = Inr ps \<and>
        getProp step ''isAssertion'' = Inr flag \<and>
        tool a = ''mcp_'' @ t \<and> params a = ps \<and>
        assertion a = (if truthy flag then the flag else JNull) \<and>
        (case ps of
           None \<Rightarrow> notCalled a
         | Some args \<Rightarrow> answered (callTool q (stripMcp t) args) a))"

section \<open>Sample runs\<close>

text \<open>
  A runtime for the runs below: \<^verbatim>\<open>JSON.parse\<close> on the texts of a table (it throws on every
  other text), and the coercion to a number of \<^verbatim>\<open>null\<close>, the booleans, the numbers and the
  objects; the runs coerce no string and no array.
\<close>

fun sampleToNumber :: "json \<Rightarrow> int option" where
  "sampleToNumber JNull = Some 0"
| "sampleToNumber (JBool b) = Some (if b then 1 else 0)"
| "sampleToNumber (JNum n) = Some n"
| "sampleToNumber v = None"

definition sampleRuntime :: "(string \<times> json) list \<Rightarrow> runtime" where
  "sampleRuntime table = \<lparr>JSON_parse = map_of table, ToNumber = sampleToNumber\<rparr>"

definition textResult :: "bool \<Rightarrow> string \<Rightarrow> CallToolResult" where
  "textResult e s = \<lparr>content = Some [\<lparr>type = ''text'', text' = Some s\<rparr>], isError = e\<rparr>"

definition planStep :: "int \<Rightarrow> string \<Rightarrow> bool \<Rightarrow> json" where
  "planStep n t b =
     JObj [(''stepIndex'', JNum n), (''tool'', JStr t), (''params'', JObj []), (''isAssertion'', JBool b)]"

text \<open>
  A provider that answers by the tool's name: an evaluation that reports \<^verbatim>\<open>false\<close> below the
  marker, a click that fails with an error envelope, and success for every other tool.
\<close>

definition sampleProvider :: "nat provider" where
  "sampleProvider p name args =
     (if name = ''browser_evaluate''
      then (Resolved (textResult False
              (''### Result'' @ [newline] @ ''false'' @ [newline] @ ''saved page.png'')), 12, p + 1)
      else if name = ''browser_click''
      then (Resolved (textResult True ''### Result true shot.png''), 7, p + 1)
      else (Resolved (textResult False ''Took the screenshot shot1.png''), 5, p + 1))"

definition freshRunner :: "nat Runner" where
  "freshRunner = initializeMCP [(''browser_click'', JObj []), (''browser_evaluate'', JObj [])] (StatelessMCPRunner 0)"

definition evaluatePlanText :: string where
  \<open>evaluatePlanText = ''[{"stepIndex":1,"tool":"browser_evaluate","params":{},"isAssertion":true}]''\<close>

definition failingRun :: "(exn + TestResults) \<times> nat Runner" where
  "failingRun =
     runTest (sampleRuntime [(evaluatePlanText, JArr [planStep 1 ''browser_evaluate'' True])])
       sampleProvider evaluatePlanText ''- check the page'' ''t.yml'' freshRunner"

definition emptyRun :: "(exn + TestResults) \<times> nat Runner" where
  "emptyRun = runTest (sampleRuntime [(''[]'', JArr [])]) sampleProvider ''[]'' ''no steps'' ''t.yml'' freshRunner"

text \<open>
  A plan of one click, which \<open>sampleProvider\<close> answers with an error envelope whose text
  carries \<^verbatim>\<open>### Result true\<close>; and a provider whose error envelope carries 200 characters.
\<close>

definition clickPlan :: json where
  "clickPlan = JArr [planStep 1 ''browser_click'' False]"

definition clickSteps :: "string list" where
  "clickSteps = testStepsOf ''- click the button''"

definition longErrorProvider :: "nat provider" where
  "longErrorProvider p name args = (Resolved (textResult True (replicate 200 (CHR ''x''))), 3, p + 1)"

definition clickPlanText :: string where
  \<open>clickPlanText = ''[{"stepIndex":1,"tool":"browser_click","params":{},"isAssertion":false}]''\<close>

definition longErrorRun :: "(exn + TestResults) \<times> nat Runner" where
  "longErrorRun =
     runTest (sampleRuntime [(clickPlanText, clickPlan)]) longErrorProvider clickPlanText
       ''- click the button'' ''t.yml'' freshRunner"

text \<open>
  Two text blocks with an image between them; and a response whose first text block says
  nothing and whose second one carries the marker with \<^verbatim>\<open>false\<close>.
\<close>

definition twoShots :: CallToolResult where
  "twoShots =
     \<lparr>content = Some [\<lparr>type = ''text'', text' = Some ''Saved as shot1.png''\<rparr>,
                      \<lparr>type = ''image'', text' = None\<rparr>,
                      \<lparr>type = ''text'', text' = Some ''and the final state (out/shot2.jpg)''\<rparr>],
      isError = False\<rparr>"

definition secondBlockFalse :: CallToolResult where
  "secondBlockFalse =
     \<lparr>content = Some [\<lparr>type = ''text'', text' = Some ''Evaluation finished''\<rparr>,
                      \<lparr>type = ''text'', text' = Some (''### Result'' @ [newline] @ ''false'')\<rparr>],
      isError = False\<rparr>"

definition secondBlockProvider :: "nat provider" where
  "secondBlockProvider p name args = (Resolved secondBlockFalse, 4, p + 1)"

definition secondBlockRun :: "(exn + TestResults) \<times> nat Runner" where
  "secondBlockRun =
     runTest (sampleRuntime [(evaluatePlanText, JArr [planStep 1 ''browser_evaluate'' True])])
       secondBlockProvider evaluatePlanText ''- check the page'' ''t.yml'' freshRunner"





definition clickRun :: "(exn + TestResults) \<times> nat Runner" where
  "clickRun =
     runTest (sampleRuntime [(clickPlanText, clickPlan)]) sampleProvider clickPlanText
       ''- click the button'' ''t.yml'' freshRunner"

text \<open>
  Plan texts that are JSON but no array of steps: an empty object, and an array whose second
  element is a number. And a plan of two steps for a test of one line.
\<close>

definition objectPlanRun :: "(exn + TestResults) \<times> nat Runner" where
  \<open>objectPlanRun =
     runTest (sampleRuntime [(''{}'', JObj [])]) sampleProvider ''{}'' ''- open the page'' ''t.yml'' freshRunner\<close>

definition mixedPlanText :: string where
  \<open>mixedPlanText = ''[{"stepIndex":1,"tool":"browser_navigate","params":{},"isAssertion":false},5]''\<close>

definition mixedPlan :: json where
  "mixedPlan = JArr [planStep 1 ''browser_navigate'' False, JNum 5]"

definition mixedPlanRun :: "(exn + TestResults) \<times> nat Runner" where
  "mixedPlanRun =
     runTest (sampleRuntime [(mixedPlanText, mixedPlan)]) sampleProvider mixedPlanText
       (''- open the page'' @ [newline] @ ''- look at it'') ''t.yml'' freshRunner"

definition longPlanText :: string where
  \<open>longPlanText = ''[{"stepIndex":1,"tool":"browser_navigate","params":{},"isAssertion":false},{"stepIndex":2,"tool":"browser_snapshot","params":{},"isAssertion":false}]''\<close>

definition longPlan :: json where
  "longPlan = JArr [planStep 1 ''browser_navigate'' False, planStep 2 ''browser_snapshot'' False]"

definition longPlanRun :: "(exn + TestResults) \<times> nat Runner" where
  "longPlanRun =
     runTest (sampleRuntime [(longPlanText, longPlan)]) sampleProvider longPlanText
       ''- open the page'' ''t.yml'' freshRunner"

text \<open>A provider during whose calls the clock is set back by five milliseconds.\<close>

definition backClockProvider :: "nat provider" where
  "backClockProvider p name args = (Resolved (textResult False ''done''), - 5, p + 1)"

definition backClockRun :: "(exn + TestResults) \<times> nat Runner" where
  "backClockRun =
     runTest (sampleRuntime [(clickPlanText, clickPlan)]) backClockProvider clickPlanText
       ''- click the button'' ''t.yml'' freshRunner"

section \<open>Evaluation\<close>

text \<open>
  Neither expression can match where the text does not start with the first character of
  the pattern, which no folding of case produces: the matchers are evaluated with that test
  first.
\<close>

lemma foldCase_fix:
  assumes "(of_char d :: nat) < 97" and "foldCase c = d"
  shows "c = d"
proof (rule ccontr)
  assume "c \<noteq> d"
  with assms(2) have r: "65 \<le> (of_char c :: nat)" "(of_char c :: nat) \<le> 90"
    and d: "d = char_of (of_char c + 32 :: nat)"
    by (auto simp: foldCase_def Let_def split: if_splits)
  from d have "(of_char d :: nat) = (of_char c + 32) mod 256"
    by simp
  with r assms(1) show False by simp
qed

lemma startsWithCI_head:
  assumes "startsWithCI (p # ps) (c # cs)" and "(of_char (foldCase p) :: nat) < 97"
  shows "foldCase p = c"
proof -
  from assms(1) have "foldCase c = foldCase p"
    by (simp add: startsWithCI_def)
  from foldCase_fix[OF assms(2) this] show ?thesis by simp
qed

lemma foldCase_dot: "foldCase (CHR ''.'') = CHR ''.''" "(of_char (foldCase (CHR ''.'')) :: nat) < 97"
  by code_simp+

lemma foldCase_hash: "foldCase (CHR ''#'') = CHR ''#''" "(of_char (foldCase (CHR ''#'')) :: nat) < 97"
  by code_simp+

lemma matchExt_code [code]:
  "matchExt s =
     (case s of
        [] \<Rightarrow> None
      | c # cs \<Rightarrow>
          if c = CHR ''.''
          then (if startsWithCI ''.png'' s then Some (take 4 s)
                else if startsWithCI ''.jpg'' s then Some (take 4 s)
                else if startsWithCI ''.jpeg'' s then Some (take 5 s)
                else None)
          else None)"
proof (cases s)
  case Nil
  then show ?thesis by (simp add: matchExt_def startsWithCI_def)
next
  case (Cons c cs)
  show ?thesis
  proof (cases "c = CHR ''.''")
    case True
    with Cons show ?thesis by (simp add: matchExt_def)
  next
    case False
    have "\<not> startsWithCI (CHR ''.'' # ps) (c # cs)" for ps
      using startsWithCI_head[of "CHR ''.''" ps c cs] foldCase_dot False by auto
    with Cons False show ?thesis
      by (simp add: matchExt_def)
  qed
qed

lemma matchResultHere_code [code]:
  "matchResultHere s =
     (case s of
        [] \<Rightarrow> None
      | c # cs \<Rightarrow>
          if c = CHR ''#''
          then (if startsWithCI ''### Result'' s
                then (let r = drop 10 s in spacesThen (length (takeWhile isSpace r)) r)
                else None)
          else None)"
proof (cases s)
  case Nil
  then show ?thesis by (simp add: matchResultHere_def startsWithCI_def)
next
  case (Cons c cs)
  show ?thesis
  proof (cases "c = CHR ''#''")
    case True
    with Cons show ?thesis by (simp add: matchResultHere_def)
  next
    case False
    have "\<not> startsWithCI (CHR ''#'' # ps) (c # cs)" for ps
      using startsWithCI_head[of "CHR ''#''" ps c cs] foldCase_hash False by auto
    with Cons False show ?thesis
      by (simp add: matchResultHere_def)
  qed
qed

section \<open>Properties of the loop\<close>

lemma executeMCP_state:
  assumes "executeMCP callTool r n ps = (x, r')"
  shows "testResults r' = testResults r \<and> testReport r' = testReport r \<and> mcpTools r' = mcpTools r"
  using assms
  by (auto simp: executeMCP_def Let_def split: option.splits prod.splits outcome.splits if_splits)

lemma truthy_orFalse:
  "truthy (orFalse v) \<Longrightarrow> the (orFalse v) \<noteq> JBool False \<and> truthy (Some (the (orFalse v)))"
  by (cases v) (auto simp: orFalse_def split: if_splits)

lemma recordAction_passed:
  "recorded (last (actions (recordAction t ps ''passed'' (orFalse ia) None d sc res)))"
  using truthy_orFalse[of ia]
  by (auto simp: recordAction_def recorded_def Let_def)

lemma recordAction_failed:
  "recorded (last (actions (recordAction t ps ''failed'' (orFalse ia) m d None res)))"
  using truthy_orFalse[of ia]
  by (auto simp: recordAction_def recorded_def Let_def)

lemma recordAction_shape:
  "\<exists>a. actions (recordAction t ps st ia m d sc res) = actions res @ [a] \<and> status a = st \<and>
       passed (recordAction t ps st ia m d sc res) = passed res + (if st = ''passed'' then 1 else 0) \<and>
       failed (recordAction t ps st ia m d sc res) = failed res + (if st = ''failed'' then 1 else 0)"
  by (simp add: recordAction_def Let_def)

lemma runStep_not_ready:
  assumes "\<not> stepReady rt ts plan i"
  shows "\<exists>e. runStep rt callTool ts plan i r = (Some e, r)"
  using assms
  by (auto simp: runStep_def stepReady_def Let_def split: sum.splits option.splits json.splits)

lemma runStep_ready:
  assumes "stepReady rt ts plan i"
  shows "\<exists>a r'. runStep rt callTool ts plan i r = (None, r') \<and>
           testReport r' = testReport r \<and> mcpTools r' = mcpTools r \<and> recorded a \<and>
           actions (testResults r') = actions (testResults r) @ [a] \<and>
           passed (testResults r') = passed (testResults r) + countStatus ''passed'' [a] \<and>
           failed (testResults r') = failed (testResults r) + countStatus ''failed'' [a]"
proof -
  from assms obtain si line t where
    si: "getProp (planItem plan i) ''stepIndex'' = Inr si" and
    line: "originalStep rt ts si i = Some line" and
    t: "getProp (planItem plan i) ''tool'' = Inr (Some (JStr t))"
    by (auto simp: stepReady_def split: sum.splits option.splits json.splits)
  define ps where "ps = (case getProp (planItem plan i) ''params'' of Inl e \<Rightarrow> None | Inr v \<Rightarrow> v)"
  define ia where "ia = (case getProp (planItem plan i) ''isAssertion'' of Inl e \<Rightarrow> None | Inr v \<Rightarrow> v)"
  obtain x r1 where ex: "executeMCP callTool r (stripMcp t) ps = (x, r1)"
    by (cases "executeMCP callTool r (stripMcp t) ps")
  note st = executeMCP_state[OF ex]
  show ?thesis
  proof (cases x)
    case (Inl err)
    let ?res = "recordAction (''mcp_'' @ t) ps ''failed'' (orFalse ia) (Some (message_of err))
                  (case duration_of err of None \<Rightarrow> 0 | Some d \<Rightarrow> d) None (testResults r1)"
    have run: "runStep rt callTool ts plan i r = (None, r1\<lparr>testResults := ?res\<rparr>)"
      using si line t ex Inl by (simp add: runStep_def Let_def ps_def ia_def)
    obtain a where a: "actions ?res = actions (testResults r1) @ [a]" "status a = ''failed''"
        "passed ?res = passed (testResults r1)" "failed ?res = failed (testResults r1) + 1"
      using recordAction_shape[of "''mcp_'' @ t" ps "''failed''" "orFalse ia" "Some (message_of err)"
          "(case duration_of err of None \<Rightarrow> 0 | Some d \<Rightarrow> d)" None "testResults r1"]
      by auto
    have "recorded a"
      using recordAction_failed[of "''mcp_'' @ t" ps ia "Some (message_of err)"
          "(case duration_of err of None \<Rightarrow> 0 | Some d \<Rightarrow> d)" "testResults r1"] a(1)
      by simp
    then show ?thesis
      using run a st by (auto simp: countStatus_def)
  next
    case (Inr rd)
    obtain result d where rd: "rd = (result, d)" by (cases rd)
    let ?res = "recordAction (''mcp_'' @ t) ps ''passed'' (orFalse ia) None d
                  (extractScreenshotPath result) (testResults r1)"
    have run: "runStep rt callTool ts plan i r = (None, r1\<lparr>testResults := ?res\<rparr>)"
      using si line t ex Inr rd by (simp add: runStep_def Let_def ps_def ia_def)
    obtain a where a: "actions ?res = actions (testResults r1) @ [a]" "status a = ''passed''"
        "passed ?res = passed (testResults r1) + 1" "failed ?res = failed (testResults r1)"
      using recordAction_shape[of "''mcp_'' @ t" ps "''passed''" "orFalse ia" None d
          "extractScreenshotPath result" "testResults r1"]
      by auto
    have "recorded a"
      using recordAction_passed[of "''mcp_'' @ t" ps ia d "extractScreenshotPath result" "testResults r1"] a(1)
      by simp
    then show ?thesis
      using run a st by (auto simp: countStatus_def)
  qed
qed

lemma stepLoop_records:
  assumes "stepLoop rt callTool ts plan js r = (e, r')"
  shows "\<exists>ys. actions (testResults r') = actions (testResults r) @ ys \<and>
           length ys \<le> length js \<and> (e = None \<longrightarrow> length ys = length js) \<and>
           list_all recorded ys \<and>
           passed (testResults r') = passed (testResults r) + countStatus ''passed'' ys \<and>
           failed (testResults r') = failed (testResults r) + countStatus ''failed'' ys \<and>
           testReport r' = testReport r \<and> mcpTools r' = mcpTools r"
  using assms
proof (induction js arbitrary: r)
  case Nil
  then show ?case by (simp add: countStatus_def)
next
  case (Cons j js)
  show ?case
  proof (cases "stepReady rt ts plan j")
    case False
    from runStep_not_ready[OF False, of callTool r] obtain x where
      "runStep rt callTool ts plan j r = (Some x, r)" by blast
    with Cons.prems have "r' = r" "e = Some x" by simp_all
    then show ?thesis by (simp add: countStatus_def)
  next
    case True
    from runStep_ready[OF True, of callTool r] obtain a r1 where
      step: "runStep rt callTool ts plan j r = (None, r1)" and
      keep: "testReport r1 = testReport r" "mcpTools r1 = mcpTools r" and
      a: "recorded a" "actions (testResults r1) = actions (testResults r) @ [a]"
         "passed (testResults r1) = passed (testResults r) + countStatus ''passed'' [a]"
         "failed (testResults r1) = failed (testResults r) + countStatus ''failed'' [a]"
      by blast
    from Cons.prems step have "stepLoop rt callTool ts plan js r1 = (e, r')" by simp
    from Cons.IH[OF this] obtain ys where
      ys: "actions (testResults r') = actions (testResults r1) @ ys"
          "length ys \<le> length js" "e = None \<longrightarrow> length ys = length js" "list_all recorded ys"
          "passed (testResults r') = passed (testResults r1) + countStatus ''passed'' ys"
          "failed (testResults r') = failed (testResults r1) + countStatus ''failed'' ys"
          "testReport r' = testReport r1" "mcpTools r' = mcpTools r1"
      by blast
    show ?thesis
      by (rule exI[of _ "a # ys"]) (use ys a keep in \<open>simp add: countStatus_def\<close>)
  qed
qed

lemma runTest_records:
  assumes "runTest rt callTool response txt name r = (res, r')"
  shows "\<exists>ys. actions (testResults r') = actions (testResults r) @ ys \<and> list_all recorded ys \<and>
           passed (testResults r') = passed (testResults r) + countStatus ''passed'' ys \<and>
           failed (testResults r') = failed (testResults r) + countStatus ''failed'' ys"
proof (cases "generateExecutionPlan rt response")
  case (Inl e)
  with assms have "testResults r' = testResults r"
    by (auto simp: runTest_def Let_def)
  then show ?thesis by (simp add: countStatus_def)
next
  case (Inr plan)
  let ?r0 = "r\<lparr>testReport := Some \<lparr>testName = name, testText = txt, report_actions = [], passedActions = 0,
                   failedActions = 0, totalActions = 0, testResult = ''running''\<rparr>\<rparr>"
  obtain e r1 where loop: "stepLoop rt callTool (testStepsOf txt) plan [0..<planLength rt plan] ?r0 = (e, r1)"
    by (cases "stepLoop rt callTool (testStepsOf txt) plan [0..<planLength rt plan] ?r0")
  from assms Inr loop have "testResults r' = testResults r1"
    by (auto simp: runTest_def Let_def split: option.splits if_splits)
  with stepLoop_records[OF loop] show ?thesis by auto
qed

lemma runTest_report:
  assumes "runTest rt callTool response txt name r = (res, r')"
  shows "\<exists>rep0. testResult rep0 = ''running'' \<and>
           (testReport r' = Some rep0 \<or>
            testReport r' = Some (generateReport (finalize (testResults r') rep0)))"
proof (cases "generateExecutionPlan rt response")
  case (Inl e)
  let ?rep0 = "\<lparr>testName = name, testText = txt, report_actions = [], passedActions = 0,
                 failedActions = 0, totalActions = 0, testResult = ''running''\<rparr>"
  from assms Inl have "testReport r' = Some ?rep0"
    by (auto simp: runTest_def Let_def)
  then show ?thesis
    by (intro exI[of _ ?rep0]) simp
next
  case (Inr plan)
  let ?rep0 = "\<lparr>testName = name, testText = txt, report_actions = [], passedActions = 0,
                 failedActions = 0, totalActions = 0, testResult = ''running''\<rparr>"
  let ?r0 = "r\<lparr>testReport := Some ?rep0\<rparr>"
  obtain e r1 where loop: "stepLoop rt callTool (testStepsOf txt) plan [0..<planLength rt plan] ?r0 = (e, r1)"
    by (cases "stepLoop rt callTool (testStepsOf txt) plan [0..<planLength rt plan] ?r0")
  from stepLoop_records[OF loop] have keep: "testReport r1 = Some ?rep0"
    by auto
  show ?thesis
  proof (cases e)
    case (Some x)
    with assms Inr loop have "r' = r1"
      by (simp add: runTest_def Let_def)
    with keep show ?thesis
      by (intro exI[of _ ?rep0]) simp
  next
    case None
    with assms Inr loop have
      "r' = r1\<lparr>testReport := Some (generateReport (finalize (testResults r1) ?rep0))\<rparr>"
      by (auto simp: runTest_def Let_def split: if_splits)
    then have "testReport r' = Some (generateReport (finalize (testResults r') ?rep0))"
      by simp
    then show ?thesis
      by (intro exI[of _ ?rep0]) simp
  qed
qed

lemma stepReady_parts:
  assumes "stepReady rt ts plan i"
  obtains si line t where
    "getProp (planItem plan i) ''stepIndex'' = Inr si"
    "originalStep rt ts si i = Some line"
    "getProp (planItem plan i) ''tool'' = Inr (Some (JStr t))"
  using assms
  by (auto simp: stepReady_def split: sum.splits option.splits json.splits)

lemma runStep_error_envelope:
  assumes ready: "stepReady rt ts plan i"
    and tool: "getProp (planItem plan i) ''tool'' = Inr (Some (JStr t))"
    and args: "getProp (planItem plan i) ''params'' = Inr (Some args)"
    and call: "callTool (mcpClient r) (stripMcp t) args = (Resolved result, d, p')"
    and err: "isError result"
  shows "\<exists>a. fst (runStep rt callTool ts plan i r) = None \<and>
           actions (testResults (snd (runStep rt callTool ts plan i r))) = actions (testResults r) @ [a] \<and>
           failed (testResults (snd (runStep rt callTool ts plan i r))) = failed (testResults r) + 1 \<and>
           passed (testResults (snd (runStep rt callTool ts plan i r))) = passed (testResults r) \<and>
           tool a = ''mcp_'' @ t \<and> params a = Some args \<and> status a = ''failed'' \<and>
           error a = Some (Text (''MCP Tool Error: '' @ JSON_stringify (content result))) \<and>
           duration a = d \<and> screenshot a = None"
proof -
  from ready obtain si line t' where
    si: "getProp (planItem plan i) ''stepIndex'' = Inr si" and
    line: "originalStep rt ts si i = Some line" and
    "getProp (planItem plan i) ''tool'' = Inr (Some (JStr t'))"
    by (rule stepReady_parts)
  have ex: "executeMCP callTool r (stripMcp t) (Some args) =
          (Inl (Error (''MCP Tool Error: '' @ JSON_stringify (content result)) (Some d)),
           r\<lparr>mcpClient := p', invoked := invoked r @ [(stripMcp t, args)]\<rparr>)"
    using call err by (simp add: executeMCP_def Let_def)
  show ?thesis
    using si line tool args ex
    by (simp add: runStep_def Let_def recordAction_def)
qed

lemma executeMCP_duration:
  assumes "executeMCP callTool r n ps = (x, r')"
  shows "case x of
           Inl err \<Rightarrow> duration_of err = None \<or> (\<exists>q m args. duration_of err = Some (fst (snd (callTool q m args))))
         | Inr (result, d) \<Rightarrow> (\<exists>q m args. d = fst (snd (callTool q m args)))"
proof (cases ps)
  case None
  with assms show ?thesis by (auto simp: executeMCP_def)
next
  case (Some args)
  obtain out el p' where c: "callTool (mcpClient r) n args = (out, el, p')"
    by (cases "callTool (mcpClient r) n args") auto
  then have "el = fst (snd (callTool (mcpClient r) n args))" by simp
  then have el: "\<exists>q m a. el = fst (snd (callTool q m a))" by blast
  from assms Some c have
    "(\<exists>m. x = Inl (Error m (Some el))) \<or> (\<exists>m. x = Inl (Error m None)) \<or> (\<exists>res. x = Inr (res, el))"
    by (auto simp: executeMCP_def Let_def split: outcome.splits if_splits)
  then consider m where "x = Inl (Error m (Some el))" | m where "x = Inl (Error m None)"
    | res where "x = Inr (res, el)"
    by blast
  then show ?thesis
  proof cases
    case 1
    with el show ?thesis by simp
  next
    case 2
    then show ?thesis by simp
  next
    case 3
    with el show ?thesis by simp
  qed
qed

lemma runStep_measured:
  assumes "runStep rt callTool ts plan i r = (e, r')"
  shows "\<exists>ys. actions (testResults r') = actions (testResults r) @ ys \<and> list_all (measured callTool) ys"
proof (cases "stepReady rt ts plan i")
  case False
  from runStep_not_ready[OF False, of callTool r] assms have "r' = r" by auto
  then show ?thesis by simp
next
  case True
  then obtain si line t where
    si: "getProp (planItem plan i) ''stepIndex'' = Inr si" and
    line: "originalStep rt ts si i = Some line" and
    t: "getProp (planItem plan i) ''tool'' = Inr (Some (JStr t))"
    by (rule stepReady_parts)
  define ps where "ps = (case getProp (planItem plan i) ''params'' of Inl e \<Rightarrow> None | Inr v \<Rightarrow> v)"
  define ia where "ia = (case getProp (planItem plan i) ''isAssertion'' of Inl e \<Rightarrow> None | Inr v \<Rightarrow> v)"
  obtain x r1 where ex: "executeMCP callTool r (stripMcp t) ps = (x, r1)"
    by (cases "executeMCP callTool r (stripMcp t) ps")
  note st = executeMCP_state[OF ex] and du = executeMCP_duration[OF ex]
  show ?thesis
  proof (cases x)
    case (Inl err)
    let ?d = "(case duration_of err of None \<Rightarrow> 0 | Some d \<Rightarrow> d)"
    let ?res = "recordAction (''mcp_'' @ t) ps ''failed'' (orFalse ia) (Some (message_of err)) ?d None (testResults r1)"
    have run: "runStep rt callTool ts plan i r = (None, r1\<lparr>testResults := ?res\<rparr>)"
      using si line t ex Inl by (simp add: runStep_def Let_def ps_def ia_def)
    have "\<exists>a. actions ?res = actions (testResults r1) @ [a] \<and> duration a = ?d"
      by (simp add: recordAction_def Let_def)
    then obtain a where a: "actions ?res = actions (testResults r1) @ [a]" "duration a = ?d" by blast
    from du Inl have "duration_of err = None \<or> (\<exists>q m args. duration_of err = Some (fst (snd (callTool q m args))))"
      by simp
    then have "?d = 0 \<or> (\<exists>q m args. ?d = fst (snd (callTool q m args)))"
    proof
      assume "duration_of err = None"
      then show ?thesis by simp
    next
      assume "\<exists>q m args. duration_of err = Some (fst (snd (callTool q m args)))"
      then obtain q m args where "duration_of err = Some (fst (snd (callTool q m args)))" by blast
      then have "?d = fst (snd (callTool q m args))" by simp
      then show ?thesis by blast
    qed
    with a have "measured callTool a" by (simp add: measured_def)
    with run a st assms show ?thesis by auto
  next
    case (Inr rd)
    obtain result d where rd: "rd = (result, d)" by (cases rd)
    let ?res = "recordAction (''mcp_'' @ t) ps ''passed'' (orFalse ia) None d
                  (extractScreenshotPath result) (testResults r1)"
    have run: "runStep rt callTool ts plan i r = (None, r1\<lparr>testResults := ?res\<rparr>)"
      using si line t ex Inr rd by (simp add: runStep_def Let_def ps_def ia_def)
    have "\<exists>a. actions ?res = actions (testResults r1) @ [a] \<and> duration a = d"
      by (simp add: recordAction_def Let_def)
    then obtain a where a: "actions ?res = actions (testResults r1) @ [a]" "duration a = d" by blast
    from du Inr rd have "\<exists>q m args. d = fst (snd (callTool q m args))" by simp
    with a have "measured callTool a" by (auto simp: measured_def)
    with run a st assms show ?thesis by auto
  qed
qed

lemma stepLoop_measured:
  assumes "stepLoop rt callTool ts plan js r = (e, r')"
  shows "\<exists>ys. actions (testResults r') = actions (testResults r) @ ys \<and> list_all (measured callTool) ys"
  using assms
proof (induction js arbitrary: r)
  case Nil
  then show ?case by simp
next
  case (Cons j js)
  obtain e1 r1 where step: "runStep rt callTool ts plan j r = (e1, r1)"
    by (cases "runStep rt callTool ts plan j r")
  from runStep_measured[OF step] obtain ys where
    ys: "actions (testResults r1) = actions (testResults r) @ ys" "list_all (measured callTool) ys"
    by blast
  show ?case
  proof (cases e1)
    case (Some x)
    with Cons.prems step have "r' = r1" by simp
    with ys show ?thesis by auto
  next
    case None
    with Cons.prems step have "stepLoop rt callTool ts plan js r1 = (e, r')" by simp
    from Cons.IH[OF this] obtain zs where
      "actions (testResults r') = actions (testResults r1) @ zs" "list_all (measured callTool) zs"
      by blast
    with ys show ?thesis
      by (intro exI[of _ "ys @ zs"]) simp
  qed
qed

lemma runTest_measured:
  assumes "runTest rt callTool response txt name r = (res, r')"
  shows "\<exists>ys. actions (testResults r') = actions (testResults r) @ ys \<and> list_all (measured callTool) ys"
proof (cases "generateExecutionPlan rt response")
  case (Inl e)
  with assms have "testResults r' = testResults r"
    by (auto simp: runTest_def Let_def)
  then show ?thesis by simp
next
  case (Inr plan)
  let ?r0 = "r\<lparr>testReport := Some \<lparr>testName = name, testText = txt, report_actions = [], passedActions = 0,
                   failedActions = 0, totalActions = 0, testResult = ''running''\<rparr>\<rparr>"
  obtain e r1 where loop: "stepLoop rt callTool (testStepsOf txt) plan [0..<planLength rt plan] ?r0 = (e, r1)"
    by (cases "stepLoop rt callTool (testStepsOf txt) plan [0..<planLength rt plan] ?r0")
  from assms Inr loop have "testResults r' = testResults r1"
    by (auto simp: runTest_def Let_def split: option.splits if_splits)
  with stepLoop_measured[OF loop] show ?thesis by auto
qed


lemma runTest_invalid:
  assumes "JSON_parse rt (stripFences response) = None \<or> JSON_parse rt (stripFences response) = Some JNull"
  shows "runTest rt callTool response txt name r =
           (Inl InvalidPlanJSON,
            r\<lparr>testReport := Some \<lparr>testName = name, testText = txt, report_actions = [], passedActions = 0,
                   failedActions = 0, totalActions = 0, testResult = ''running''\<rparr>\<rparr>)"
  using assms by (auto simp: runTest_def generateExecutionPlan_def Let_def)

lemma stepLoop_all_ready:
  assumes "list_all (stepReady rt ts plan) js"
  shows "fst (stepLoop rt callTool ts plan js r) = None"
  using assms
proof (induction js arbitrary: r)
  case Nil
  then show ?case by simp
next
  case (Cons j js)
  then have "stepReady rt ts plan j" by simp
  from runStep_ready[OF this, of callTool r] obtain r1 where "runStep rt callTool ts plan j r = (None, r1)"
    by blast
  with Cons show ?case by simp
qed

text \<open>
  A plan whose steps are all ready runs to its end: one record for each step, whatever the
  steps' outcomes, and a finalized report.
\<close>

lemma runTest_all_ready:
  assumes plan: "generateExecutionPlan rt response = Inr plan"
    and ready: "list_all (stepReady rt (testStepsOf txt) plan) [0..<planLength rt plan]"
    and run: "runTest rt callTool response txt name r = (res, r')"
  shows "length (actions (testResults r')) = length (actions (testResults r)) + planLength rt plan \<and>
         map_option testResult (testReport r') \<noteq> Some ''running''"
proof -
  let ?rep0 = "\<lparr>testName = name, testText = txt, report_actions = [], passedActions = 0,
                 failedActions = 0, totalActions = 0, testResult = ''running''\<rparr>"
  let ?r0 = "r\<lparr>testReport := Some ?rep0\<rparr>"
  obtain e r1 where loop: "stepLoop rt callTool (testStepsOf txt) plan [0..<planLength rt plan] ?r0 = (e, r1)"
    by (cases "stepLoop rt callTool (testStepsOf txt) plan [0..<planLength rt plan] ?r0")
  from stepLoop_all_ready[OF ready, of callTool ?r0] loop have e: "e = None"
    by simp
  from stepLoop_records[OF loop] e have len: "length (actions (testResults r1)) = length (actions (testResults r)) + planLength rt plan"
    by auto
  from run plan loop e have
    "r' = r1\<lparr>testReport := Some (generateReport (finalize (testResults r1) ?rep0))\<rparr>"
    by (auto simp: runTest_def Let_def split: if_splits)
  with len show ?thesis
    by (simp add: generateReport_def)
qed

lemma getProp_total:
  assumes "getProp v k = Inr x"
  shows "\<exists>y. getProp v k' = Inr y"
  using assms by (cases "(v, k)" rule: getProp.cases) auto

lemma extractScreenshotPath_nonempty: "extractScreenshotPath result \<noteq> Some []"
  by (auto simp: extractScreenshotPath_def path_join_def split: option.splits list.splits)

lemma orFalse_stored:
  "(if truthy (orFalse v) then the (orFalse v) else JNull) = (if truthy v then the v else JNull)"
  by (cases v) (auto simp: orFalse_def)

lemma runStep_stepRecord:
  assumes ready: "stepReady rt ts plan i"
  shows "\<exists>a. fst (runStep rt callTool ts plan i r) = None \<and>
           actions (testResults (snd (runStep rt callTool ts plan i r))) = actions (testResults r) @ [a] \<and>
           stepRecord callTool (mcpClient r) (planItem plan i) a"
proof -
  from ready obtain si line t where
    si: "getProp (planItem plan i) ''stepIndex'' = Inr si" and
    line: "originalStep rt ts si i = Some line" and
    t: "getProp (planItem plan i) ''tool'' = Inr (Some (JStr t))"
    by (rule stepReady_parts)
  from getProp_total[OF t] obtain ps where ps: "getProp (planItem plan i) ''params'' = Inr ps" by blast
  from getProp_total[OF t] obtain flag where fl: "getProp (planItem plan i) ''isAssertion'' = Inr flag" by blast
  show ?thesis
  proof (cases ps)
    case None
    have "runStep rt callTool ts plan i r =
            (None, r\<lparr>testResults := recordAction (''mcp_'' @ t) None ''failed'' (orFalse flag)
                        (Some EngineText) 0 None (testResults r)\<rparr>)"
      using si line t ps fl None by (simp add: runStep_def Let_def executeMCP_def)
    then show ?thesis
      using t ps fl None
      by (simp add: stepRecord_def notCalled_def recordAction_def Let_def orFalse_stored)
  next
    case (Some args)
    obtain out el p' where c: "callTool (mcpClient r) (stripMcp t) args = (out, el, p')"
      by (cases "callTool (mcpClient r) (stripMcp t) args") auto
    show ?thesis
    proof (cases out)
      case (Rejected m)
      have "executeMCP callTool r (stripMcp t) (Some args) =
              (Inl (Error m None), r\<lparr>mcpClient := p', invoked := invoked r @ [(stripMcp t, args)]\<rparr>)"
        using c Rejected by (simp add: executeMCP_def Let_def)
      then show ?thesis
        using si line t ps fl Some c Rejected
        by (simp add: runStep_def Let_def stepRecord_def answered_def recordAction_def orFalse_stored)
    next
      case (Resolved result)
      consider (env) "isError result" | (neg) "\<not> isError result" "returnedFalse result"
        | (ok) "\<not> isError result" "\<not> returnedFalse result"
        by blast
      then show ?thesis
      proof cases
        case env
        have "executeMCP callTool r (stripMcp t) (Some args) =
                (Inl (Error (''MCP Tool Error: '' @ JSON_stringify (content result)) (Some el)),
                 r\<lparr>mcpClient := p', invoked := invoked r @ [(stripMcp t, args)]\<rparr>)"
          using c Resolved env by (simp add: executeMCP_def Let_def)
        then show ?thesis
          using si line t ps fl Some c Resolved env
          by (simp add: runStep_def Let_def stepRecord_def answered_def recordAction_def orFalse_stored)
      next
        case neg
        have "executeMCP callTool r (stripMcp t) (Some args) =
                (Inl (Error ''MCP Tool returned false'' (Some el)),
                 r\<lparr>mcpClient := p', invoked := invoked r @ [(stripMcp t, args)]\<rparr>)"
          using c Resolved neg by (simp add: executeMCP_def Let_def)
        then show ?thesis
          using si line t ps fl Some c Resolved neg
          by (simp add: runStep_def Let_def stepRecord_def answered_def recordAction_def orFalse_stored)
      next
        case ok
        have "executeMCP callTool r (stripMcp t) (Some args) =
                (Inr (result, el), r\<lparr>mcpClient := p', invoked := invoked r @ [(stripMcp t, args)]\<rparr>)"
          using c Resolved ok by (simp add: executeMCP_def Let_def)
        then show ?thesis
          using si line t ps fl Some c Resolved ok extractScreenshotPath_nonempty[of result]
          by (auto simp: runStep_def Let_def stepRecord_def answered_def recordAction_def orFalse_stored
                split: option.splits)
      qed
    qed
  qed
qed

lemma stepLoop_stepRecords:
  assumes "stepLoop rt callTool ts plan js r = (e, r')"
  shows "\<exists>ys. actions (testResults r') = actions (testResults r) @ ys \<and> length ys \<le> length js \<and>
           list_all2 (\<lambda>j a. \<exists>q. stepRecord callTool q (planItem plan j) a) (take (length ys) js) ys"
  using assms
proof (induction js arbitrary: r)
  case Nil
  then show ?case by simp
next
  case (Cons j js)
  show ?case
  proof (cases "stepReady rt ts plan j")
    case False
    from runStep_not_ready[OF False, of callTool r] obtain x where
      "runStep rt callTool ts plan j r = (Some x, r)" by blast
    with Cons.prems have "r' = r" by simp
    then show ?thesis by simp
  next
    case True
    obtain e1 r1 where step: "runStep rt callTool ts plan j r = (e1, r1)"
      by (cases "runStep rt callTool ts plan j r")
    from runStep_stepRecord[OF True, of callTool r] step obtain a where
      a: "e1 = None" "actions (testResults r1) = actions (testResults r) @ [a]"
         "stepRecord callTool (mcpClient r) (planItem plan j) a"
      by auto
    from Cons.prems step a(1) have "stepLoop rt callTool ts plan js r1 = (e, r')" by simp
    from Cons.IH[OF this] obtain ys where
      ys: "actions (testResults r') = actions (testResults r1) @ ys" "length ys \<le> length js"
          "list_all2 (\<lambda>j a. \<exists>q. stepRecord callTool q (planItem plan j) a) (take (length ys) js) ys"
      by blast
    from a(3) have "\<exists>q. stepRecord callTool q (planItem plan j) a" by blast
    with ys a(2) show ?thesis
      by (intro exI[of _ "a # ys"]) simp
  qed
qed

lemma runTest_stepRecords:
  assumes run: "runTest rt callTool response txt name r = (res, r')"
    and fresh: "actions (testResults r) = []"
    and k: "k < length (actions (testResults r'))"
  shows "\<exists>plan q. generateExecutionPlan rt response = Inr plan \<and> k < planLength rt plan \<and>
           stepRecord callTool q (planItem plan k) (actions (testResults r') ! k)"
proof (cases "generateExecutionPlan rt response")
  case (Inl e)
  with run have "testResults r' = testResults r"
    by (auto simp: runTest_def Let_def)
  with fresh k show ?thesis by simp
next
  case (Inr plan)
  let ?r0 = "r\<lparr>testReport := Some \<lparr>testName = name, testText = txt, report_actions = [], passedActions = 0,
                   failedActions = 0, totalActions = 0, testResult = ''running''\<rparr>\<rparr>"
  obtain e r1 where loop: "stepLoop rt callTool (testStepsOf txt) plan [0..<planLength rt plan] ?r0 = (e, r1)"
    by (cases "stepLoop rt callTool (testStepsOf txt) plan [0..<planLength rt plan] ?r0")
  from run Inr loop have same: "testResults r' = testResults r1"
    by (auto simp: runTest_def Let_def split: option.splits if_splits)
  from stepLoop_stepRecords[OF loop] fresh same obtain ys where
    ys: "actions (testResults r') = ys" "length ys \<le> planLength rt plan"
        "list_all2 (\<lambda>j a. \<exists>q. stepRecord callTool q (planItem plan j) a)
           (take (length ys) [0..<planLength rt plan]) ys"
    by auto
  from k ys(1) have kk: "k < length ys" by simp
  with ys(2) have "take (length ys) [0..<planLength rt plan] ! k = k"
    by simp
  with list_all2_nthD2[OF ys(3) kk] have "\<exists>q. stepRecord callTool q (planItem plan k) (ys ! k)"
    by simp
  with Inr ys kk show ?thesis by auto
qed






section \<open>Properties of the image runs\<close>

lemma startsWithCI_iff:
  "startsWithCI p s = (\<exists>e rest. s = e @ rest \<and> map foldCase e = map foldCase p)"
proof
  assume "startsWithCI p s"
  then have "s = take (length p) s @ drop (length p) s \<and> map foldCase (take (length p) s) = map foldCase p"
    by (simp add: startsWithCI_def)
  then show "\<exists>e rest. s = e @ rest \<and> map foldCase e = map foldCase p" by blast
next
  assume "\<exists>e rest. s = e @ rest \<and> map foldCase e = map foldCase p"
  then obtain e rest where s: "s = e @ rest" and e: "map foldCase e = map foldCase p" by blast
  from e have "length e = length p" by (metis length_map)
  with s e show "startsWithCI p s" by (simp add: startsWithCI_def)
qed

lemma startsWithCI_take:
  assumes "startsWithCI p s"
  shows "map foldCase (take (length p) s) = map foldCase p \<and> (\<exists>rest. s = take (length p) s @ rest)"
proof -
  have "s = take (length p) s @ drop (length p) s" by simp
  with assms show ?thesis
    unfolding startsWithCI_def by blast
qed

lemma matchExt_Some:
  assumes "matchExt s = Some e"
  shows "isImageExt e \<and> (\<exists>rest. s = e @ rest)"
proof -
  have l: "length ''.png'' = 4" "length ''.jpg'' = 4" "length ''.jpeg'' = 5"
    by simp_all
  from assms consider
    (png) "startsWithCI ''.png'' s" "e = take 4 s"
  | (jpg) "startsWithCI ''.jpg'' s" "e = take 4 s"
  | (jpeg) "startsWithCI ''.jpeg'' s" "e = take 5 s"
    unfolding matchExt_def by (metis option.inject option.distinct(1))
  then show ?thesis
  proof cases
    case png
    with startsWithCI_take[OF png(1), unfolded l] show ?thesis unfolding isImageExt_def by blast
  next
    case jpg
    with startsWithCI_take[OF jpg(1), unfolded l] show ?thesis unfolding isImageExt_def by blast
  next
    case jpeg
    with startsWithCI_take[OF jpeg(1), unfolded l] show ?thesis unfolding isImageExt_def by blast
  qed
qed

lemma matchExt_None:
  assumes "matchExt s = None"
  shows "\<not> extAt s"
proof -
  from assms have "\<not> startsWithCI ''.png'' s" "\<not> startsWithCI ''.jpg'' s" "\<not> startsWithCI ''.jpeg'' s"
    unfolding matchExt_def by (metis option.distinct(1))+
  then show ?thesis
    unfolding startsWithCI_iff isImageExt_def extAt_def by blast
qed

lemma ext_lengths:
  assumes "isImageExt e"
  shows "length e = 4 \<and> (map foldCase e = map foldCase ''.png'' \<or> map foldCase e = map foldCase ''.jpg'') \<or>
         length e = 5 \<and> map foldCase e = map foldCase ''.jpeg''"
proof -
  have len: "map foldCase e = map foldCase p \<Longrightarrow> length e = length p" for p
    by (metis length_map)
  from assms len[of "''.png''"] len[of "''.jpg''"] len[of "''.jpeg''"] show ?thesis
    unfolding isImageExt_def by auto
qed

lemma jpeg_prefix:
  "take 4 (map foldCase ''.jpeg'') \<noteq> map foldCase ''.png''"
  "take 4 (map foldCase ''.jpeg'') \<noteq> map foldCase ''.jpg''"
  by code_simp+

lemma ext_unique:
  assumes "s = e @ r" and "s = e' @ r'" and "isImageExt e" and "isImageExt e'"
  shows "e = e'"
proof -
  have short: "x = y" if "s = x @ a" "s = y @ b" "length x = length y" for x y a b
    using that by (metis append_eq_append_conv)
  have mixed: False
    if "s = x @ a" "s = y @ b" "length x = 4"
       "map foldCase x = map foldCase ''.png'' \<or> map foldCase x = map foldCase ''.jpg''"
       "length y = 5" "map foldCase y = map foldCase ''.jpeg''" for x y a b
  proof -
    from that(1,3) have "take 4 s = x" by simp
    moreover from that(2,5) have "take 4 s = take 4 y" by simp
    ultimately have "x = take 4 y" by simp
    then have "map foldCase x = take 4 (map foldCase ''.jpeg'')"
      using that(6) by (simp add: take_map[symmetric])
    with that(4) jpeg_prefix show False by metis
  qed
  from ext_lengths[OF assms(3)] ext_lengths[OF assms(4)] show ?thesis
    using short[OF assms(1,2)] mixed[OF assms(1,2)] mixed[OF assms(2,1)] by metis
qed

lemma tokenThenExt_Some:
  "tokenThenExt taken s = Some m \<Longrightarrow>
     \<exists>t e rest. m = taken @ t @ e \<and> s = t @ e @ rest \<and> list_all isTokenChar t \<and> isImageExt e \<and>
       \<not> (\<exists>k. k < length t \<and> extAt (drop k s))"
proof (induction s arbitrary: taken)
  case Nil
  then have "matchExt [] = Some (drop (length taken) m) \<and> m = taken @ drop (length taken) m"
    by (auto split: option.splits)
  with matchExt_Some[of "[]" "drop (length taken) m"] show ?case
    by (intro exI[of _ "[]"]) auto
next
  case (Cons c cs)
  show ?case
  proof (cases "matchExt (c # cs)")
    case (Some e)
    with Cons.prems have m: "m = taken @ e" by simp
    from matchExt_Some[OF Some] obtain rest where "isImageExt e" "c # cs = e @ rest" by blast
    with m have "m = taken @ [] @ e \<and> c # cs = [] @ e @ rest \<and> list_all isTokenChar [] \<and> isImageExt e \<and>
        \<not> (\<exists>k. k < length ([] :: string) \<and> extAt (drop k (c # cs)))"
      by simp
    then show ?thesis by blast
  next
    case None
    with Cons.prems have tok: "isTokenChar c" and rec: "tokenThenExt (taken @ [c]) cs = Some m"
      by (auto split: if_splits)
    from Cons.IH[OF rec] obtain t e rest where
      ih: "m = (taken @ [c]) @ t @ e" "cs = t @ e @ rest" "list_all isTokenChar t" "isImageExt e"
          "\<not> (\<exists>k. k < length t \<and> extAt (drop k cs))"
      by blast
    have "\<not> (\<exists>k. k < length (c # t) \<and> extAt (drop k (c # cs)))"
    proof
      assume "\<exists>k. k < length (c # t) \<and> extAt (drop k (c # cs))"
      then obtain k where k: "k < length (c # t)" "extAt (drop k (c # cs))" by blast
      show False
      proof (cases k)
        case 0
        with k matchExt_None[OF None] show False by simp
      next
        case (Suc k')
        with k ih(5) show False by auto
      qed
    qed
    with ih tok have "m = taken @ (c # t) @ e \<and> c # cs = (c # t) @ e @ rest \<and>
        list_all isTokenChar (c # t) \<and> isImageExt e \<and>
        \<not> (\<exists>k. k < length (c # t) \<and> extAt (drop k (c # cs)))"
      by simp
    then show ?thesis by blast
  qed
qed

lemma tokenThenExt_None:
  "tokenThenExt taken s = None \<Longrightarrow>
     \<not> (\<exists>t e rest. s = t @ e @ rest \<and> list_all isTokenChar t \<and> isImageExt e)"
proof (induction s arbitrary: taken)
  case Nil
  then have "matchExt [] = None"
    by (auto split: option.splits)
  from matchExt_None[OF this] show ?case
    by (auto simp: extAt_def)
next
  case (Cons c cs)
  from Cons.prems have none: "matchExt (c # cs) = None"
    by (auto split: option.splits)
  show ?case
  proof
    assume "\<exists>t e rest. c # cs = t @ e @ rest \<and> list_all isTokenChar t \<and> isImageExt e"
    then obtain t e rest where s: "c # cs = t @ e @ rest" and t: "list_all isTokenChar t" and e: "isImageExt e"
      by blast
    show False
    proof (cases t)
      case Nil
      with s e matchExt_None[OF none] show False by (auto simp: extAt_def)
    next
      case (Cons c' t')
      with s t have c: "isTokenChar c" and cs: "cs = t' @ e @ rest" and t': "list_all isTokenChar t'"
        by auto
      from Cons.prems none c have "tokenThenExt (taken @ [c]) cs = None" by simp
      from Cons.IH[OF this] cs t' e show False by blast
    qed
  qed
qed

lemma matchImageHere_Some:
  assumes "matchImageHere s = Some m"
  shows "shortestRunAt m s"
proof -
  from assms obtain c cs where s: "s = c # cs" and c: "isTokenChar c" and m: "tokenThenExt [c] cs = Some m"
    by (auto simp: matchImageHere_def split: list.splits if_splits)
  from tokenThenExt_Some[OF m] obtain t e rest where
    t: "m = [c] @ t @ e" "cs = t @ e @ rest" "list_all isTokenChar t" "isImageExt e"
       "\<not> (\<exists>k. k < length t \<and> extAt (drop k cs))"
    by blast
  have "\<not> (\<exists>k. 0 < k \<and> k < length (c # t) \<and> extAt (drop k s))"
  proof
    assume "\<exists>k. 0 < k \<and> k < length (c # t) \<and> extAt (drop k s)"
    then obtain k where "0 < k" "k < length (c # t)" "extAt (drop k s)" by blast
    then have "k - 1 < length t \<and> extAt (drop (k - 1) cs)"
      using s by (cases k) auto
    with t(5) show False by blast
  qed
  with s c t have "m = (c # t) @ e \<and> s = m @ rest \<and> c # t \<noteq> [] \<and> list_all isTokenChar (c # t) \<and>
      isImageExt e \<and> \<not> (\<exists>k. 0 < k \<and> k < length (c # t) \<and> extAt (drop k s))"
    by simp
  then show ?thesis
    unfolding shortestRunAt_def by blast
qed

lemma matchImageHere_None:
  assumes "matchImageHere s = None"
  shows "\<not> imageRunAt s"
proof
  assume "imageRunAt s"
  then obtain t e rest where s: "s = t @ e @ rest" and t: "t \<noteq> []" "list_all isTokenChar t" and e: "isImageExt e"
    unfolding imageRunAt_def by blast
  from t obtain c t' where ct: "t = c # t'" by (cases t) auto
  with s t have "s = c # (t' @ e @ rest)" "isTokenChar c" "list_all isTokenChar t'" by auto
  with assms have "tokenThenExt [c] (t' @ e @ rest) = None"
    by (simp add: matchImageHere_def)
  from tokenThenExt_None[OF this] \<open>list_all isTokenChar t'\<close> e show False by blast
qed

lemma shortestRunAt_imageRunAt: "shortestRunAt m s \<Longrightarrow> imageRunAt s"
  unfolding shortestRunAt_def imageRunAt_def by (metis append.assoc)

lemma shortestRunAt_nonempty: "shortestRunAt m s \<Longrightarrow> m \<noteq> [] \<and> (\<exists>rest. s = m @ rest)"
  unfolding shortestRunAt_def by auto

lemma shortestRunAt_unique:
  assumes "shortestRunAt m s" and "shortestRunAt m' s"
  shows "m = m'"
proof -
  from assms(1) obtain t e rest where
    a: "m = t @ e" "s = m @ rest" "t \<noteq> []" "isImageExt e"
       "\<not> (\<exists>k. 0 < k \<and> k < length t \<and> extAt (drop k s))"
    unfolding shortestRunAt_def by blast
  from assms(2) obtain t' e' rest' where
    b: "m' = t' @ e'" "s = m' @ rest'" "t' \<noteq> []" "isImageExt e'"
       "\<not> (\<exists>k. 0 < k \<and> k < length t' \<and> extAt (drop k s))"
    unfolding shortestRunAt_def by blast
  from a have da: "drop (length t) s = e @ rest" by simp
  from b have db: "drop (length t') s = e' @ rest'" by simp
  from da a(4) have ea: "extAt (drop (length t) s)" unfolding extAt_def by blast
  from db b(4) have eb: "extAt (drop (length t') s)" unfolding extAt_def by blast
  have "\<not> length t < length t'"
    using ea a(3) b(5) by auto
  moreover have "\<not> length t' < length t"
    using eb b(3) a(5) by auto
  ultimately have len: "length t = length t'" by simp
  have ta: "take (length t) s = t"
    unfolding a(2) a(1) by simp
  have tb: "take (length t') s = t'"
    unfolding b(2) b(1) by simp
  from ta tb len have tt: "t = t'" by metis
  from ext_unique[OF da db[folded len] a(4) b(4)] have "e = e'" .
  with tt a b show ?thesis by simp
qed

lemma hasImageRun_Cons:
  assumes "\<not> imageRunAt (c # cs)"
  shows "hasImageRun (c # cs) = hasImageRun cs"
proof
  assume "hasImageRun (c # cs)"
  then obtain pre u where s: "c # cs = pre @ u" and u: "imageRunAt u"
    unfolding hasImageRun_def by blast
  show "hasImageRun cs"
  proof (cases pre)
    case Nil
    with s u assms show ?thesis by simp
  next
    case (Cons a pre')
    with s have "cs = pre' @ u" by simp
    with u show ?thesis unfolding hasImageRun_def by blast
  qed
next
  assume "hasImageRun cs"
  then obtain pre u where "cs = pre @ u" "imageRunAt u"
    unfolding hasImageRun_def by blast
  then have "c # cs = (c # pre) @ u \<and> imageRunAt u" by simp
  then show "hasImageRun (c # cs)"
    unfolding hasImageRun_def by blast
qed

lemma imageRunAt_hasImageRun: "imageRunAt s \<Longrightarrow> hasImageRun s"
  unfolding hasImageRun_def by (metis append_Nil)

lemma matchImages_Nil_iff: "matchImages s = [] \<longleftrightarrow> \<not> hasImageRun s"
proof (induction s rule: matchImages.induct)
  case 1
  show ?case by (simp add: hasImageRun_def imageRunAt_def)
next
  case (2 c cs)
  show ?case
  proof (cases "matchImageHere (c # cs)")
    case None
    with 2 matchImageHere_None[OF None] show ?thesis by (simp add: hasImageRun_Cons)
  next
    case (Some m)
    from matchImageHere_Some[OF Some] have "hasImageRun (c # cs)"
      by (intro imageRunAt_hasImageRun shortestRunAt_imageRunAt)
    with Some show ?thesis by simp
  qed
qed

lemma matchImages_Cons:
  assumes "matchImageHere (c # cs) = Some m"
  shows "\<exists>rest. c # cs = m @ rest \<and> drop (length m - 1) cs = rest \<and> matchImages (c # cs) = m # matchImages rest"
proof -
  from shortestRunAt_nonempty[OF matchImageHere_Some[OF assms]] obtain rest where
    s: "c # cs = m @ rest" and "m \<noteq> []" by auto
  then have "drop (length m - 1) cs = rest"
    by (cases m) auto
  with assms have "matchImages (c # cs) = m # matchImages rest" by simp
  with s \<open>drop (length m - 1) cs = rest\<close> show ?thesis by blast
qed

lemma scanned_shift:
  assumes "\<not> imageRunAt (c # cs)" and "scanned ms cs" and "ms \<noteq> []"
  shows "scanned ms (c # cs)"
proof -
  from assms(3) obtain m ms' where ms: "ms = m # ms'" by (cases ms) auto
  with assms(2) obtain pre rest where
    p: "cs = pre @ m @ rest" "\<not> (\<exists>k. k < length pre \<and> imageRunAt (drop k cs))"
       "shortestRunAt m (m @ rest)" "scanned ms' rest"
    by auto
  have "\<not> (\<exists>k. k < length (c # pre) \<and> imageRunAt (drop k (c # cs)))"
  proof
    assume "\<exists>k. k < length (c # pre) \<and> imageRunAt (drop k (c # cs))"
    then obtain k where k: "k < length (c # pre)" "imageRunAt (drop k (c # cs))" by blast
    show False
    proof (cases k)
      case 0
      with k assms(1) show False by simp
    next
      case (Suc k')
      with k p(2) show False by auto
    qed
  qed
  with p have "c # cs = (c # pre) @ m @ rest \<and>
      \<not> (\<exists>k. k < length (c # pre) \<and> imageRunAt (drop k (c # cs))) \<and>
      shortestRunAt m (m @ rest) \<and> scanned ms' rest"
    by simp
  then show ?thesis
    unfolding ms scanned.simps by blast
qed

lemma matchImages_scanned: "scanned (matchImages s) s"
proof (induction s rule: matchImages.induct)
  case 1
  show ?case by (simp add: hasImageRun_def imageRunAt_def)
next
  case (2 c cs)
  show ?case
  proof (cases "matchImageHere (c # cs)")
    case None
    with 2 have ih: "scanned (matchImages cs) cs" by simp
    note no = matchImageHere_None[OF None]
    show ?thesis
    proof (cases "matchImages cs = []")
      case True
      with ih None no show ?thesis by (simp add: hasImageRun_Cons)
    next
      case False
      from scanned_shift[OF no ih False] None show ?thesis by simp
    qed
  next
    case (Some m)
    from matchImages_Cons[OF Some] obtain rest where
      s: "c # cs = m @ rest" and d: "drop (length m - 1) cs = rest"
      and ms: "matchImages (c # cs) = m # matchImages rest" by blast
    from 2(2)[OF Some] d have ih: "scanned (matchImages rest) rest" by simp
    from matchImageHere_Some[OF Some] s have sh: "shortestRunAt m (m @ rest)" by simp
    from s ih sh have "c # cs = [] @ m @ rest \<and>
        \<not> (\<exists>k. k < length ([] :: string) \<and> imageRunAt (drop k (c # cs))) \<and>
        shortestRunAt m (m @ rest) \<and> scanned (matchImages rest) rest"
      by simp
    then show ?thesis
      unfolding ms scanned.simps by blast
  qed
qed

lemma scanned_unique: "scanned ms s \<Longrightarrow> ms = matchImages s"
proof (induction s arbitrary: ms rule: matchImages.induct)
  case 1
  show ?case
  proof (cases ms)
    case Nil
    then show ?thesis by simp
  next
    case (Cons m ms')
    with 1 obtain rest where "m = []" "shortestRunAt m (m @ rest)" by auto
    with shortestRunAt_nonempty show ?thesis by blast
  qed
next
  case (2 c cs)
  show ?case
  proof (cases "matchImageHere (c # cs)")
    case None
    note no = matchImageHere_None[OF None]
    show ?thesis
    proof (cases ms)
      case Nil
      with "2.prems" matchImages_Nil_iff[of "c # cs"] show ?thesis by simp
    next
      case (Cons m ms')
      with "2.prems" obtain pre rest where
        p: "c # cs = pre @ m @ rest" "\<not> (\<exists>k. k < length pre \<and> imageRunAt (drop k (c # cs)))"
           "shortestRunAt m (m @ rest)" "scanned ms' rest"
        by auto
      have "pre \<noteq> []"
      proof
        assume "pre = []"
        with p(1,3) have "shortestRunAt m (c # cs)" by simp
        with shortestRunAt_imageRunAt no show False by blast
      qed
      then obtain pre' where pre: "pre = c # pre'" and cs: "cs = pre' @ m @ rest"
        using p(1) by (cases pre) auto
      have "\<not> (\<exists>k. k < length pre' \<and> imageRunAt (drop k cs))"
      proof
        assume "\<exists>k. k < length pre' \<and> imageRunAt (drop k cs)"
        then obtain k where "k < length pre'" "imageRunAt (drop k cs)" by blast
        then have "Suc k < length pre \<and> imageRunAt (drop (Suc k) (c # cs))"
          using pre by simp
        with p(2) show False by blast
      qed
      with cs p(3,4) have "scanned (m # ms') cs"
        unfolding scanned.simps by blast
      with "2.IH"(1)[OF None] Cons None show ?thesis by simp
    qed
  next
    case (Some m0)
    note sh0 = matchImageHere_Some[OF Some]
    from matchImages_Cons[OF Some] obtain rest0 where
      s0: "c # cs = m0 @ rest0" and d: "drop (length m0 - 1) cs = rest0"
      and ms0: "matchImages (c # cs) = m0 # matchImages rest0" by blast
    show ?thesis
    proof (cases ms)
      case Nil
      with "2.prems" imageRunAt_hasImageRun[OF shortestRunAt_imageRunAt[OF sh0]] show ?thesis by simp
    next
      case (Cons m ms')
      with "2.prems" obtain pre rest where
        p: "c # cs = pre @ m @ rest" "\<not> (\<exists>k. k < length pre \<and> imageRunAt (drop k (c # cs)))"
           "shortestRunAt m (m @ rest)" "scanned ms' rest"
        by auto
      have "pre = []"
      proof (rule ccontr)
        assume "pre \<noteq> []"
        then have "0 < length pre \<and> imageRunAt (drop 0 (c # cs))"
          using shortestRunAt_imageRunAt[OF sh0] by simp
        with p(2) show False by blast
      qed
      with p(1,3) have "shortestRunAt m (c # cs)" and s: "c # cs = m @ rest" by simp_all
      from shortestRunAt_unique[OF this(1) sh0] have mm: "m = m0" .
      with s s0 have "rest = rest0" by simp
      with p(4) "2.IH"(2)[OF Some] d have "ms' = matchImages rest0" by simp
      with mm ms0 Cons show ?thesis by simp
    qed
  qed
qed

lemma scanned_iff: "scanned ms s \<longleftrightarrow> ms = matchImages s"
  using scanned_unique matchImages_scanned by blast

section \<open>The claims\<close>

subsection \<open>C5: the verdict of a finalized run\<close>

text \<open>
  C5. Once a run has finalized its report (the verdict is no longer \<^verbatim>\<open>running\<close>),
  \<^verbatim>\<open>testResult\<close> is \<^verbatim>\<open>pass\<close> exactly when \<^verbatim>\<open>failedActions\<close> is 0, whatever the number of
  actions; the counters of the report are those of the recorder.
\<close>

theorem C5_pass_iff_no_failed_action:
  assumes "runTest rt callTool response txt name r = (res, r')"
    and "testReport r' = Some rep"
    and "testResult rep \<noteq> ''running''"
  shows "(testResult rep = ''pass'') = (failedActions rep = 0) \<and>
         failedActions rep = failed (testResults r') \<and>
         totalActions rep = length (actions (testResults r'))"
proof -
  from runTest_report[OF assms(1)] assms(2,3) obtain rep0 where
    "rep = generateReport (finalize (testResults r') rep0)"
    by auto
  then show ?thesis
    by (simp add: generateReport_def finalize_def)
qed

text \<open>The run of an empty plan: no action, and the verdict is \<^verbatim>\<open>pass\<close>.\<close>

theorem C5_witness:
  "testResult (the (testReport (snd emptyRun))) \<noteq> ''running'' \<and>
   totalActions (the (testReport (snd emptyRun))) = 0 \<and>
   failedActions (the (testReport (snd emptyRun))) = 0 \<and>
   testResult (the (testReport (snd emptyRun))) = ''pass''"
proof -
  have run: "runTest (sampleRuntime [(''[]'', JArr [])]) sampleProvider ''[]'' ''no steps'' ''t.yml'' freshRunner
               = (fst emptyRun, snd emptyRun)"
    by (simp add: emptyRun_def)
  have some: "testReport (snd emptyRun) \<noteq> None"
    by code_simp
  then have rep: "testReport (snd emptyRun) = Some (the (testReport (snd emptyRun)))"
    by simp
  have fin: "testResult (the (testReport (snd emptyRun))) \<noteq> ''running''"
    by code_simp
  have none: "actions (testResults (snd emptyRun)) = []" "failed (testResults (snd emptyRun)) = 0"
    by code_simp+
  from C5_pass_iff_no_failed_action[OF run rep fin] none fin show ?thesis
    by simp
qed

subsection \<open>C10: a failed step has no screenshot\<close>

text \<open>
  C10. In every run of a fresh runner, a record whose status is \<^verbatim>\<open>failed\<close> has no screenshot:
  \<^verbatim>\<open>extractScreenshotPath\<close> is called on the passing path only, also when the text of the
  failing response names image files.
\<close>

theorem C10_failed_record_has_no_screenshot:
  assumes "runTest rt callTool response txt name (initializeMCP toolsList (StatelessMCPRunner p)) = (res, r')"
    and "a \<in> set (actions (testResults r'))"
    and "status a = ''failed''"
  shows "screenshot a = None"
proof -
  from runTest_records[OF assms(1)] obtain ys where
    "actions (testResults r') = ys" "list_all recorded ys"
    by (auto simp: initializeMCP_def StatelessMCPRunner_def)
  with assms(2) have "recorded a" by (auto simp: list_all_iff)
  with assms(3) show ?thesis by (auto simp: recorded_def)
qed

text \<open>
  The evaluation step of \<open>failingRun\<close> answers \<^verbatim>\<open>false\<close> below the marker and names
  \<^verbatim>\<open>page.png\<close>: it is recorded failed, without a screenshot.
\<close>

theorem C10_witness:
  "hd (actions (testResults (snd failingRun))) \<in> set (actions (testResults (snd failingRun))) \<and>
   status (hd (actions (testResults (snd failingRun)))) = ''failed'' \<and>
   screenshot (hd (actions (testResults (snd failingRun)))) = None"
proof -
  have run: "runTest (sampleRuntime [(evaluatePlanText, JArr [planStep 1 ''browser_evaluate'' True])])
               sampleProvider evaluatePlanText ''- check the page'' ''t.yml''
               (initializeMCP [(''browser_click'', JObj []), (''browser_evaluate'', JObj [])] (StatelessMCPRunner 0))
             = (fst failingRun, snd failingRun)"
    by (simp add: failingRun_def freshRunner_def)
  have mem: "hd (actions (testResults (snd failingRun))) \<in> set (actions (testResults (snd failingRun)))"
    by code_simp
  have st: "status (hd (actions (testResults (snd failingRun)))) = ''failed''"
    by code_simp
  from C10_failed_record_has_no_screenshot[OF run mem st] mem st show ?thesis
    by simp
qed

subsection \<open>C3: an error envelope is a failed step\<close>

text \<open>
  C3. A step whose response has \<^verbatim>\<open>isError = true\<close> is recorded failed, once, and the error of
  the record is \<^verbatim>\<open>MCP Tool Error: \<close> followed by the serialised content of the response. The
  text of the response plays no part: the marker \<^verbatim>\<open>### Result\<close> is not looked at.
\<close>

theorem C3_error_envelope_recorded_failed:
  assumes "stepReady rt ts plan i"
    and "getProp (planItem plan i) ''tool'' = Inr (Some (JStr t))"
    and "getProp (planItem plan i) ''params'' = Inr (Some args)"
    and "callTool (mcpClient r) (stripMcp t) args = (Resolved result, d, p')"
    and "isError result"
  shows "\<exists>a. fst (runStep rt callTool ts plan i r) = None \<and>
           actions (testResults (snd (runStep rt callTool ts plan i r))) = actions (testResults r) @ [a] \<and>
           failed (testResults (snd (runStep rt callTool ts plan i r))) = failed (testResults r) + 1 \<and>
           passed (testResults (snd (runStep rt callTool ts plan i r))) = passed (testResults r) \<and>
           status a = ''failed'' \<and>
           error a = Some (Text (''MCP Tool Error: '' @ JSON_stringify (content result))) \<and>
           screenshot a = None"
  using runStep_error_envelope[where callTool = callTool and r = r, OF assms] by blast

text \<open>
  The click of \<open>clickPlan\<close>: the envelope is an error and its text says \<^verbatim>\<open>### Result true\<close>.
\<close>

theorem C3_witness:
  "stepReady (sampleRuntime []) clickSteps clickPlan 0 \<and>
   isError (textResult True ''### Result true shot.png'') \<and>
   matchResult ''### Result true shot.png'' = Some ''true shot.png'' \<and>
   (\<exists>a. fst (runStep (sampleRuntime []) sampleProvider clickSteps clickPlan 0 freshRunner) = None \<and>
        actions (testResults (snd (runStep (sampleRuntime []) sampleProvider clickSteps clickPlan 0 freshRunner)))
          = actions (testResults freshRunner) @ [a] \<and>
        failed (testResults (snd (runStep (sampleRuntime []) sampleProvider clickSteps clickPlan 0 freshRunner)))
          = failed (testResults freshRunner) + 1 \<and>
        passed (testResults (snd (runStep (sampleRuntime []) sampleProvider clickSteps clickPlan 0 freshRunner)))
          = passed (testResults freshRunner) \<and>
        status a = ''failed'' \<and>
        error a = Some (Text (''MCP Tool Error: '' @
                    JSON_stringify (content (textResult True ''### Result true shot.png'')))) \<and>
        screenshot a = None)"
proof -
  have ready: "stepReady (sampleRuntime []) clickSteps clickPlan 0"
    by code_simp
  have tool: "getProp (planItem clickPlan 0) ''tool'' = Inr (Some (JStr ''browser_click''))"
    by code_simp
  have args: "getProp (planItem clickPlan 0) ''params'' = Inr (Some (JObj []))"
    by code_simp
  have call: "sampleProvider (mcpClient freshRunner) (stripMcp ''browser_click'') (JObj [])
                = (Resolved (textResult True ''### Result true shot.png''), 7, mcpClient freshRunner + 1)"
    by (simp add: sampleProvider_def stripMcp_def)
  have err: "isError (textResult True ''### Result true shot.png'')"
    by (simp add: textResult_def)
  have marker: "matchResult ''### Result true shot.png'' = Some ''true shot.png''"
    by code_simp
  from C3_error_envelope_recorded_failed[where callTool = sampleProvider and r = freshRunner,
      OF ready tool args call err] ready err marker
  show ?thesis by blast
qed

subsection \<open>C8: the error message holds the whole payload\<close>

text \<open>
  C8 as stated asks for a bounded excerpt of the payload in the error message. The source
  cuts nothing: the message of \<open>longErrorRun\<close>'s record is the prefix followed by all 227
  characters of the serialised content (the only cut in the source is the 120 characters of
  the parameters that \<^verbatim>\<open>log.tool\<close> prints).
\<close>

theorem C8_counterexample:
  "error (hd (actions (testResults (snd longErrorRun)))) =
     Some (Text (''MCP Tool Error: '' @ JSON_stringify (content (textResult True (replicate 200 (CHR ''x'')))))) \<and>
   length (JSON_stringify (content (textResult True (replicate 200 (CHR ''x''))))) = 227"
  by code_simp

text \<open>
  C8, amended. A step whose response has \<^verbatim>\<open>isError = true\<close> is recorded with an error message
  that is \<^verbatim>\<open>MCP Tool Error: \<close> followed by the entire serialised content of the response: its
  length is 16 more than the payload's, whatever that is.
\<close>

theorem C8_error_message_is_whole_payload:
  assumes "stepReady rt ts plan i"
    and "getProp (planItem plan i) ''tool'' = Inr (Some (JStr t))"
    and "getProp (planItem plan i) ''params'' = Inr (Some args)"
    and "callTool (mcpClient r) (stripMcp t) args = (Resolved result, d, p')"
    and "isError result"
  shows "\<exists>a m. actions (testResults (snd (runStep rt callTool ts plan i r))) = actions (testResults r) @ [a] \<and>
           error a = Some (Text m) \<and>
           m = ''MCP Tool Error: '' @ JSON_stringify (content result) \<and>
           length m = 16 + length (JSON_stringify (content result))"
proof -
  from runStep_error_envelope[where callTool = callTool and r = r, OF assms] obtain a where
    "actions (testResults (snd (runStep rt callTool ts plan i r))) = actions (testResults r) @ [a]"
    "error a = Some (Text (''MCP Tool Error: '' @ JSON_stringify (content result)))"
    by blast
  then show ?thesis by simp
qed

theorem C8_witness:
  "stepReady (sampleRuntime []) clickSteps clickPlan 0 \<and>
   isError (textResult True (replicate 200 (CHR ''x''))) \<and>
   (\<exists>a m. actions (testResults (snd (runStep (sampleRuntime []) longErrorProvider clickSteps clickPlan 0 freshRunner)))
            = actions (testResults freshRunner) @ [a] \<and>
          error a = Some (Text m) \<and>
          m = ''MCP Tool Error: '' @ JSON_stringify (content (textResult True (replicate 200 (CHR ''x'')))) \<and>
          length m = 16 + length (JSON_stringify (content (textResult True (replicate 200 (CHR ''x''))))))"
proof -
  have ready: "stepReady (sampleRuntime []) clickSteps clickPlan 0"
    by code_simp
  have tool: "getProp (planItem clickPlan 0) ''tool'' = Inr (Some (JStr ''browser_click''))"
    by code_simp
  have args: "getProp (planItem clickPlan 0) ''params'' = Inr (Some (JObj []))"
    by code_simp
  have call: "longErrorProvider (mcpClient freshRunner) (stripMcp ''browser_click'') (JObj [])
                = (Resolved (textResult True (replicate 200 (CHR ''x''))), 3, mcpClient freshRunner + 1)"
    by (simp add: longErrorProvider_def)
  have err: "isError (textResult True (replicate 200 (CHR ''x'')))"
    by (simp add: textResult_def)
  from C8_error_message_is_whole_payload[where callTool = longErrorProvider and r = freshRunner,
      OF ready tool args call err] ready err
  show ?thesis by blast
qed

subsection \<open>C6: the screenshot is the last image run\<close>

text \<open>
  C6 as stated returns the path built from the last token that ends in an image extension,
  or nothing when there is no such token. The expression of \<^verbatim>\<open>extractScreenshotPath\<close> has no
  anchor at the end of a token and a lazy quantifier: in \<^verbatim>\<open>see notes.png.txt\<close> no token ends
  in an image extension and the source returns the path of \<^verbatim>\<open>notes.png\<close>; in
  \<^verbatim>\<open>old.png file.jpegs.png\<close> the last such token is \<^verbatim>\<open>file.jpegs.png\<close> and the source returns
  the path of \<^verbatim>\<open>s.png\<close>, what is left after the match \<^verbatim>\<open>file.jpeg\<close>. On \<^verbatim>\<open>shot1.png\<close> before
  \<^verbatim>\<open>shot2.jpg\<close> both agree.
\<close>

theorem C6_counterexample:
  "claimedScreenshotPath (textResult False ''see notes.png.txt'') = None \<and>
   extractScreenshotPath (textResult False ''see notes.png.txt'')
     = Some ''mcp-workspace/test-screenshots/notes.png'' \<and>
   claimedScreenshotPath (textResult False ''old.png file.jpegs.png'')
     = Some ''mcp-workspace/test-screenshots/file.jpegs.png'' \<and>
   extractScreenshotPath (textResult False ''old.png file.jpegs.png'')
     = Some ''mcp-workspace/test-screenshots/s.png'' \<and>
   claimedScreenshotPath twoShots = Some ''mcp-workspace/test-screenshots/shot2.jpg''"
  by code_simp

text \<open>
  C6, amended. \<^verbatim>\<open>extractScreenshotPath\<close> joins the texts of the blocks of type \<^verbatim>\<open>text\<close> with
  newlines, skipping the other blocks, and scans the joined text from left to right for
  image runs: at the first place where one begins it takes the shortest, and goes on behind
  it. It returns nothing when the content is no array or empty or the text holds no image
  run, and otherwise the screenshot directory joined with the base name of the last run the
  scan met, and no other path. With \<^verbatim>\<open>shot1.png\<close> before \<^verbatim>\<open>shot2.jpg\<close> that is the path of
  \<^verbatim>\<open>shot2.jpg\<close>.
\<close>

theorem C6_screenshot_is_last_image_name:
  "extractScreenshotPath \<lparr>content = None, isError = e\<rparr> = None \<and>
   extractScreenshotPath \<lparr>content = Some [], isError = e\<rparr> = None \<and>
   (extractScreenshotPath \<lparr>content = Some blocks, isError = e\<rparr> = None)
     = (\<not> hasImageRun (fullText blocks)) \<and>
   (extractScreenshotPath \<lparr>content = Some blocks, isError = e\<rparr> = Some p)
     = (\<exists>ms m. scanned (ms @ [m]) (fullText blocks) \<and> p = path_join screenshotsDir (basename m)) \<and>
   fullText (the (content twoShots)) = ''Saved as shot1.png'' @ [newline] @ ''and the final state (out/shot2.jpg)'' \<and>
   scanned [''shot1.png'', ''out/shot2.jpg''] (fullText (the (content twoShots))) \<and>
   extractScreenshotPath twoShots = Some ''mcp-workspace/test-screenshots/shot2.jpg''"
proof -
  have none: "extractScreenshotPath \<lparr>content = None, isError = e\<rparr> = None"
    by (simp add: extractScreenshotPath_def)
  have empty: "extractScreenshotPath \<lparr>content = Some [], isError = e\<rparr> = None"
    by (simp add: extractScreenshotPath_def fullText_def)
  have absent: "(extractScreenshotPath \<lparr>content = Some blocks, isError = e\<rparr> = None)
                   = (\<not> hasImageRun (fullText blocks))"
    using matchImages_Nil_iff[of "fullText blocks"]
    by (cases "matchImages (fullText blocks)") (auto simp: extractScreenshotPath_def)
  have last_one: "(extractScreenshotPath \<lparr>content = Some blocks, isError = e\<rparr> = Some p)
       = (\<exists>ms m. scanned (ms @ [m]) (fullText blocks) \<and> p = path_join screenshotsDir (basename m))"
  proof (cases "matchImages (fullText blocks)")
    case Nil
    then have "extractScreenshotPath \<lparr>content = Some blocks, isError = e\<rparr> = None"
      by (simp add: extractScreenshotPath_def)
    moreover have "\<not> (\<exists>ms m. scanned (ms @ [m]) (fullText blocks))"
      using Nil by (auto simp: scanned_iff)
    ultimately show ?thesis by auto
  next
    case (Cons x xs)
    then have ne: "fullText blocks \<noteq> []" by auto
    from Cons have val: "extractScreenshotPath \<lparr>content = Some blocks, isError = e\<rparr>
        = Some (path_join screenshotsDir (basename (last (matchImages (fullText blocks)))))"
      using ne by (simp add: extractScreenshotPath_def)
    have split: "matchImages (fullText blocks) = butlast (matchImages (fullText blocks)) @ [last (matchImages (fullText blocks))]"
      using Cons by simp
    show ?thesis
    proof
      assume "extractScreenshotPath \<lparr>content = Some blocks, isError = e\<rparr> = Some p"
      with val have "p = path_join screenshotsDir (basename (last (matchImages (fullText blocks))))"
        by simp
      moreover from split have "scanned (butlast (matchImages (fullText blocks)) @ [last (matchImages (fullText blocks))]) (fullText blocks)"
        using matchImages_scanned[of "fullText blocks"] by simp
      ultimately show "\<exists>ms m. scanned (ms @ [m]) (fullText blocks) \<and> p = path_join screenshotsDir (basename m)"
        by blast
    next
      assume "\<exists>ms m. scanned (ms @ [m]) (fullText blocks) \<and> p = path_join screenshotsDir (basename m)"
      then obtain ms m where "scanned (ms @ [m]) (fullText blocks)" "p = path_join screenshotsDir (basename m)"
        by blast
      then have "matchImages (fullText blocks) = ms @ [m]" "p = path_join screenshotsDir (basename m)"
        by (simp_all add: scanned_iff)
      with val show "extractScreenshotPath \<lparr>content = Some blocks, isError = e\<rparr> = Some p"
        by simp
    qed
  qed
  have joined: "fullText (the (content twoShots)) =
                ''Saved as shot1.png'' @ [newline] @ ''and the final state (out/shot2.jpg)''"
    by code_simp
  have "matchImages (fullText (the (content twoShots))) = [''shot1.png'', ''out/shot2.jpg'']"
    by code_simp
  then have matches: "scanned [''shot1.png'', ''out/shot2.jpg''] (fullText (the (content twoShots)))"
    by (simp only: scanned_iff)
  have path: "extractScreenshotPath twoShots = Some ''mcp-workspace/test-screenshots/shot2.jpg''"
    by code_simp
  show ?thesis
    by (intro conjI) (rule none empty absent last_one joined matches path)+
qed

subsection \<open>C2: the marker is read in the first text block only\<close>

text \<open>
  C2. The claim reads the marker in the concatenation of all text blocks. \<^verbatim>\<open>executeMCP\<close>
  takes the first block of type \<^verbatim>\<open>text\<close> and no other, while \<^verbatim>\<open>extractScreenshotPath\<close>
  joins them all. With the marker and \<^verbatim>\<open>false\<close> in the first text block the step fails, as
  the claim says; with the same marker in the second text block the joined text still
  carries it and the step is recorded passed.
\<close>

theorem C2_marker_in_second_block_passes:
  "returnedFalse (textResult False (''### Result'' @ [newline] @ ''false'')) \<and>
   \<not> isError secondBlockFalse \<and>
   fullText (the (content secondBlockFalse)) =
     ''Evaluation finished'' @ [newline] @ ''### Result'' @ [newline] @ ''false'' \<and>
   matchResult (fullText (the (content secondBlockFalse))) = Some ''false'' \<and>
   \<not> returnedFalse secondBlockFalse \<and>
   map status (actions (testResults (snd secondBlockRun))) = [''passed''] \<and>
   map status (actions (testResults (snd failingRun))) = [''failed'']"
  by code_simp

subsection \<open>C9: the shape of a record\<close>

text \<open>
  C9 as stated makes \<^verbatim>\<open>assertion\<close> a boolean and the duration non-negative.
  \<^verbatim>\<open>recordAction\<close> stores \<^verbatim>\<open>assertion || null\<close>: the click of \<open>clickRun\<close> is no assertion, its
  flag is \<^verbatim>\<open>false\<close> in the plan, and its record holds \<^verbatim>\<open>null\<close>, which is no boolean. And the
  duration is the difference of two readings of \<^verbatim>\<open>Date.now()\<close>: when the clock is set back
  by five milliseconds during the call, as in \<open>backClockRun\<close>, the record holds -5.
\<close>

theorem C9_counterexample:
  "getProp (planItem clickPlan 0) ''isAssertion'' = Inr (Some (JBool False)) \<and>
   assertion (hd (actions (testResults (snd clickRun)))) = JNull \<and>
   \<not> (\<exists>b. assertion (hd (actions (testResults (snd clickRun)))) = JBool b) \<and>
   duration (hd (actions (testResults (snd backClockRun)))) = - 5"
proof -
  have flag: "getProp (planItem clickPlan 0) ''isAssertion'' = Inr (Some (JBool False))"
    by code_simp
  have null: "assertion (hd (actions (testResults (snd clickRun)))) = JNull"
    by code_simp
  have backwards: "duration (hd (actions (testResults (snd backClockRun)))) = - 5"
    by code_simp
  from flag null backwards show ?thesis by simp
qed

text \<open>
  C9, amended. In every run of a fresh runner the record at position \<open>k\<close> is the record of
  the plan's step \<open>k\<close>: its tool and parameters are the step's; its status is \<^verbatim>\<open>passed\<close> or
  \<^verbatim>\<open>failed\<close>, with error and screenshot as the provider's answer decides; its \<^verbatim>\<open>assertion\<close> is
  the step's \<^verbatim>\<open>isAssertion\<close> when that is truthy and \<^verbatim>\<open>null\<close> otherwise, hence never
  \<^verbatim>\<open>false\<close>; its duration is what the clock read around the provider's call when the call
  resolved, and 0 when the call was rejected or not made, hence not negative as long as
  the clock does not go back. One turn of the loop appends exactly one record, that of its
  step, when the step is ready and none otherwise, and leaves the records before it as they
  were.
\<close>

theorem C9_record_shape:
  assumes run: "runTest rt callTool response txt name (initializeMCP toolsList (StatelessMCPRunner p)) = (res, r')"
    and k: "k < length (actions (testResults r'))"
  shows "(\<exists>plan q. generateExecutionPlan rt response = Inr plan \<and> k < planLength rt plan \<and>
            stepRecord callTool q (planItem plan k) (actions (testResults r') ! k)) \<and>
         (status (actions (testResults r') ! k) = ''passed'' \<or> status (actions (testResults r') ! k) = ''failed'') \<and>
         (assertion (actions (testResults r') ! k) = JNull \<or> truthy (Some (assertion (actions (testResults r') ! k)))) \<and>
         assertion (actions (testResults r') ! k) \<noteq> JBool False \<and>
         ((\<forall>q n args. 0 \<le> fst (snd (callTool q n args))) \<longrightarrow> 0 \<le> duration (actions (testResults r') ! k)) \<and>
         (\<exists>ys. actions (testResults (snd (runStep rt' callTool' ts plan' i r0))) = actions (testResults r0) @ ys \<and>
               length ys = (if stepReady rt' ts plan' i then 1 else 0) \<and>
               list_all (stepRecord callTool' (mcpClient r0) (planItem plan' i)) ys)"
proof -
  let ?a = "actions (testResults r') ! k"
  have fresh: "actions (testResults (initializeMCP toolsList (StatelessMCPRunner p))) = []"
    by (simp add: initializeMCP_def StatelessMCPRunner_def)
  from k have mem: "?a \<in> set (actions (testResults r'))" by simp
  note exact = runTest_stepRecords[OF run fresh k]
  from runTest_records[OF run] fresh obtain ys where
    "actions (testResults r') = ys" "list_all recorded ys"
    by auto
  with mem have rec: "recorded ?a" by (auto simp: list_all_iff)
  from runTest_measured[OF run] fresh obtain zs where
    "actions (testResults r') = zs" "list_all (measured callTool) zs"
    by auto
  with mem have "measured callTool ?a" by (auto simp: list_all_iff)
  then have dur: "(\<forall>q n args. 0 \<le> fst (snd (callTool q n args))) \<longrightarrow> 0 \<le> duration ?a"
    by (auto simp: measured_def)
  have once: "\<exists>ys. actions (testResults (snd (runStep rt' callTool' ts plan' i r0))) = actions (testResults r0) @ ys \<and>
               length ys = (if stepReady rt' ts plan' i then 1 else 0) \<and>
               list_all (stepRecord callTool' (mcpClient r0) (planItem plan' i)) ys"
  proof (cases "stepReady rt' ts plan' i")
    case True
    from runStep_stepRecord[OF True, of callTool' r0] obtain a where
      "actions (testResults (snd (runStep rt' callTool' ts plan' i r0))) = actions (testResults r0) @ [a]"
      "stepRecord callTool' (mcpClient r0) (planItem plan' i) a"
      by blast
    with True show ?thesis
      by (intro exI[of _ "[a]"]) simp
  next
    case False
    from runStep_not_ready[OF False, of callTool' r0] show ?thesis using False by auto
  qed
  from exact rec dur once show ?thesis
    unfolding recorded_def by blast
qed

text \<open>
  The evaluation of \<open>failingRun\<close>, an assertion that took 12 milliseconds, and the click of
  \<open>clickPlan\<close>.
\<close>

theorem C9_witness:
  "(\<forall>q n args. 0 \<le> fst (snd (sampleProvider q n args))) \<and>
   0 < length (actions (testResults (snd failingRun))) \<and>
   (\<exists>plan q. generateExecutionPlan (sampleRuntime [(evaluatePlanText, JArr [planStep 1 ''browser_evaluate'' True])])
                evaluatePlanText = Inr plan \<and> 0 < planLength (sampleRuntime [(evaluatePlanText, JArr [planStep 1 ''browser_evaluate'' True])]) plan \<and>
              stepRecord sampleProvider q (planItem plan 0) (actions (testResults (snd failingRun)) ! 0)) \<and>
   status (actions (testResults (snd failingRun)) ! 0) = ''failed'' \<and>
   assertion (actions (testResults (snd failingRun)) ! 0) = JBool True \<and>
   duration (actions (testResults (snd failingRun)) ! 0) = 12 \<and>
   0 \<le> duration (actions (testResults (snd failingRun)) ! 0) \<and>
   stepReady (sampleRuntime []) clickSteps clickPlan 0 \<and>
   (\<exists>ys. actions (testResults (snd (runStep (sampleRuntime []) sampleProvider clickSteps clickPlan 0 freshRunner)))
           = actions (testResults freshRunner) @ ys \<and> length ys = 1 \<and>
         list_all (stepRecord sampleProvider (mcpClient freshRunner) (planItem clickPlan 0)) ys)"
proof -
  have run: "runTest (sampleRuntime [(evaluatePlanText, JArr [planStep 1 ''browser_evaluate'' True])])
               sampleProvider evaluatePlanText ''- check the page'' ''t.yml''
               (initializeMCP [(''browser_click'', JObj []), (''browser_evaluate'', JObj [])] (StatelessMCPRunner 0))
             = (fst failingRun, snd failingRun)"
    by (simp add: failingRun_def freshRunner_def)
  have clock: "\<forall>q n args. 0 \<le> fst (snd (sampleProvider q n args))"
    by (simp add: sampleProvider_def)
  have k: "0 < length (actions (testResults (snd failingRun)))"
    by code_simp
  have st: "status (actions (testResults (snd failingRun)) ! 0) = ''failed''"
    by code_simp
  have flag: "assertion (actions (testResults (snd failingRun)) ! 0) = JBool True"
    by code_simp
  have d: "duration (actions (testResults (snd failingRun)) ! 0) = 12"
    by code_simp
  have ready: "stepReady (sampleRuntime []) clickSteps clickPlan 0"
    by code_simp
  from C9_record_shape[where callTool = sampleProvider and rt' = "sampleRuntime []"
      and callTool' = sampleProvider and ts = clickSteps and plan' = clickPlan and i = 0 and ?r0.0 = freshRunner,
      OF run k]
    clock k st flag d ready
  show ?thesis by simp
qed

subsection \<open>C1: tool names are not checked against the catalog\<close>




subsection \<open>C7: only a text that is no JSON aborts the run\<close>

text \<open>
  C7 as stated aborts the run on every plan text that is not an array of steps. The source
  checks that the text parses, nothing more: the empty object of \<open>objectPlanRun\<close> gives a
  run of no action that ends with \<^verbatim>\<open>pass\<close>, and the array of \<open>mixedPlanRun\<close> has its first
  step executed and recorded before the number after it ends the run with a
  \<^verbatim>\<open>TypeError\<close>.
\<close>

theorem C7_counterexample:
  "JSON_parse (sampleRuntime [(''{}'', JObj [])]) (stripFences ''{}'') = Some (JObj []) \<and>
   fst objectPlanRun = Inr \<lparr>passed = 0, failed = 0, actions = []\<rparr> \<and>
   testResult (the (testReport (snd objectPlanRun))) = ''pass'' \<and>
   fst mixedPlanRun = Inl TypeError \<and>
   invoked (snd mixedPlanRun) = [(''browser_navigate'', JObj [])] \<and>
   map status (actions (testResults (snd mixedPlanRun))) = [''passed'']"
proof -
  have p: "JSON_parse (sampleRuntime [(''{}'', JObj [])]) (stripFences ''{}'') = Some (JObj [])"
    by code_simp
  have o1: "fst objectPlanRun = Inr \<lparr>passed = 0, failed = 0, actions = []\<rparr>"
    by code_simp
  have o2: "testResult (the (testReport (snd objectPlanRun))) = ''pass''"
    by code_simp
  have m1: "fst mixedPlanRun = Inl TypeError"
    by code_simp
  have m2: "invoked (snd mixedPlanRun) = [(''browser_navigate'', JObj [])]"
    by code_simp
  have m3: "map status (actions (testResults (snd mixedPlanRun))) = [''passed'']"
    by code_simp
  from p o1 o2 m1 m2 m3 show ?thesis by simp
qed

text \<open>
  C7, amended. When the plan text, after the fences are stripped, is no JSON at all
  (\<^verbatim>\<open>JSON.parse\<close> throws) or is the JSON \<^verbatim>\<open>null\<close>, the run aborts with
  \<^verbatim>\<open>Invalid plan JSON\<close> before any action: the provider is not called, no record is made,
  and the report stays \<^verbatim>\<open>running\<close>.
\<close>

theorem C7_invalid_json_aborts:
  assumes "JSON_parse rt (stripFences response) = None \<or> JSON_parse rt (stripFences response) = Some JNull"
  shows "fst (runTest rt callTool response txt name r) = Inl InvalidPlanJSON \<and>
         invoked (snd (runTest rt callTool response txt name r)) = invoked r \<and>
         mcpClient (snd (runTest rt callTool response txt name r)) = mcpClient r \<and>
         testResults (snd (runTest rt callTool response txt name r)) = testResults r \<and>
         map_option testResult (testReport (snd (runTest rt callTool response txt name r))) = Some ''running''"
  using runTest_invalid[OF assms, of callTool "txt" name r] by simp

theorem C7_witness:
  "JSON_parse (sampleRuntime []) (stripFences ''Here is the plan: step one'') = None \<and>
   fst (runTest (sampleRuntime []) sampleProvider ''Here is the plan: step one'' ''- open the page'' ''t.yml'' freshRunner)
     = Inl InvalidPlanJSON \<and>
   invoked (snd (runTest (sampleRuntime []) sampleProvider ''Here is the plan: step one'' ''- open the page'' ''t.yml'' freshRunner))
     = invoked freshRunner \<and>
   testResults (snd (runTest (sampleRuntime []) sampleProvider ''Here is the plan: step one'' ''- open the page'' ''t.yml'' freshRunner))
     = testResults freshRunner"
proof -
  have parse: "JSON_parse (sampleRuntime []) (stripFences ''Here is the plan: step one'') = None"
    by (simp add: sampleRuntime_def)
  then have "JSON_parse (sampleRuntime []) (stripFences ''Here is the plan: step one'') = None \<or>
             JSON_parse (sampleRuntime []) (stripFences ''Here is the plan: step one'') = Some JNull"
    by simp
  from C7_invalid_json_aborts[where callTool = sampleProvider, OF this] parse
  show ?thesis by simp
qed

subsection \<open>C4: a plan longer than the test can end the run early\<close>

text \<open>
  C4. Failing steps never stop the loop (\<open>runStep_ready\<close>: a ready step always gives a record and
  goes on), and a plan whose steps are all ready gives one record each and a finalized
  report (\<open>runTest_all_ready\<close>). But the log line of a step needs a line of the test: \<^verbatim>\<open>testSteps[step.stepIndex - 1]\<close>
  or else \<^verbatim>\<open>testSteps[i]\<close>. The plan of \<open>longPlanRun\<close> has two steps, numbered 1 and 2, for a
  test of one line: neither lookup finds a line for the second step,
  \<^verbatim>\<open>originalStep.trim()\<close> throws outside the \<^verbatim>\<open>try\<close>, and the run ends with one record instead
  of two and a report that is never finalized.
\<close>

theorem C4_longer_plan_ends_early:
  "length (testStepsOf ''- open the page'') = 1 \<and>
   planLength (sampleRuntime [(longPlanText, longPlan)]) longPlan = 2 \<and>
   stepReady (sampleRuntime [(longPlanText, longPlan)]) (testStepsOf ''- open the page'') longPlan 0 \<and>
   \<not> stepReady (sampleRuntime [(longPlanText, longPlan)]) (testStepsOf ''- open the page'') longPlan 1 \<and>
   fst longPlanRun = Inl TypeError \<and>
   length (actions (testResults (snd longPlanRun))) = 1 \<and>
   invoked (snd longPlanRun) = [(''browser_navigate'', JObj [])] \<and>
   testResult (the (testReport (snd longPlanRun))) = ''running''"
proof -
  have a: "length (testStepsOf ''- open the page'') = 1"
    by code_simp
  have b: "planLength (sampleRuntime [(longPlanText, longPlan)]) longPlan = 2"
    by code_simp
  have c: "stepReady (sampleRuntime [(longPlanText, longPlan)]) (testStepsOf ''- open the page'') longPlan 0"
    by code_simp
  have d: "\<not> stepReady (sampleRuntime [(longPlanText, longPlan)]) (testStepsOf ''- open the page'') longPlan 1"
    by code_simp
  have e: "fst longPlanRun = Inl TypeError"
    by code_simp
  have f: "length (actions (testResults (snd longPlanRun))) = 1"
    by code_simp
  have g: "invoked (snd longPlanRun) = [(''browser_navigate'', JObj [])]"
    by code_simp
  have h: "testResult (the (testReport (snd longPlanRun))) = ''running''"
    by code_simp
  from a b c d e f g h show ?thesis by simp
qed

end
